theory Spec2Isabelle
  imports Main "HOL-Library.Sorting_Algorithms" "HOL-Library.Product_Lexorder"
    "HOL-Library.List_Lexorder"
begin

section \<open>Values of the in-memory document store\<close>

text \<open>
  The store of \<^verbatim>\<open>src/backend/database.py\<close> holds Python values built from
  \<^verbatim>\<open>None\<close>, booleans, integers, strings, lists and dicts with string keys. A dict is an
  association list in insertion order. Floats are outside the model. Values are
  immutable here, so \<^verbatim>\<open>copy.deepcopy\<close> is the identity.
\<close>

datatype val =
    VNone
  | VBool bool
  | VInt int
  | VStr string
  | VList "val list"
  | VDict "(string \<times> val) list"

type_synonym doc = "(string \<times> val) list"

text \<open>The exceptions the code can raise on these values.\<close>

datatype error = TypeError | AttributeError | KeyError | IndexError

definition bind_err :: "error + 'a \<Rightarrow> ('a \<Rightarrow> error + 'b) \<Rightarrow> error + 'b" where
  "bind_err m f = (case m of Inl e \<Rightarrow> Inl e | Inr x \<Rightarrow> f x)"

subsection \<open>Python equality, ordering and membership\<close>

text \<open>\<^verbatim>\<open>bool\<close> is a subclass of \<^verbatim>\<open>int\<close>: \<^verbatim>\<open>True == 1\<close>.\<close>

fun num_of :: "val \<Rightarrow> int option" where
  "num_of (VBool b) = Some (if b then 1 else 0)"
| "num_of (VInt i) = Some i"
| "num_of _ = None"

text \<open>
  \<^verbatim>\<open>a == b\<close>. Lists compare element by element; dicts compare as mappings, whatever
  the order of their items: equal lengths, and every key of the left one carries
  an equal value in the right one.
\<close>

fun py_eq :: "val \<Rightarrow> val \<Rightarrow> bool"
  and py_eq_list :: "val list \<Rightarrow> val list \<Rightarrow> bool"
  and py_eq_items :: "(string \<times> val) list \<Rightarrow> (string \<times> val) list \<Rightarrow> bool" where
  "py_eq VNone b = (b = VNone)"
| "py_eq (VBool a) b = (num_of b = Some (if a then 1 else 0))"
| "py_eq (VInt a) b = (num_of b = Some a)"
| "py_eq (VStr a) b = (b = VStr a)"
| "py_eq (VList a) b = (case b of VList bs \<Rightarrow> py_eq_list a bs | _ \<Rightarrow> False)"
| "py_eq (VDict a) b =
     (case b of VDict bs \<Rightarrow> length a = length bs \<and> py_eq_items a bs | _ \<Rightarrow> False)"
| "py_eq_list [] bs = (bs = [])"
| "py_eq_list (x # xs) bs =
     (case bs of [] \<Rightarrow> False | y # ys \<Rightarrow> py_eq x y \<and> py_eq_list xs ys)"
| "py_eq_items [] bs = True"
| "py_eq_items (kv # rest) bs =
     (case map_of bs (fst kv) of
        None \<Rightarrow> False
      | Some w \<Rightarrow> py_eq (snd kv) w \<and> py_eq_items rest bs)"

text \<open>Strings order by code point, lexicographically.\<close>

fun str_lt :: "string \<Rightarrow> string \<Rightarrow> bool" where
  "str_lt [] [] = False"
| "str_lt [] (d # ds) = True"
| "str_lt (c # cs) [] = False"
| "str_lt (c # cs) (d # ds) =
     (if c = d then str_lt cs ds else (of_char c :: nat) < of_char d)"

text \<open>
  \<^verbatim>\<open>a < b\<close>. Numbers compare with numbers and strings with strings; lists compare
  at the first position where they differ; every other pairing raises
  \<^verbatim>\<open>TypeError\<close>, \<^verbatim>\<open>None < None\<close> included.
\<close>

fun py_lt :: "val \<Rightarrow> val \<Rightarrow> error + bool"
  and py_lt_list :: "val list \<Rightarrow> val list \<Rightarrow> error + bool" where
  "py_lt VNone b = Inl TypeError"
| "py_lt (VBool a) b =
     (case num_of b of Some n \<Rightarrow> Inr ((if a then 1 else 0) < n) | None \<Rightarrow> Inl TypeError)"
| "py_lt (VInt a) b = (case num_of b of Some n \<Rightarrow> Inr (a < n) | None \<Rightarrow> Inl TypeError)"
| "py_lt (VStr a) b = (case b of VStr s \<Rightarrow> Inr (str_lt a s) | _ \<Rightarrow> Inl TypeError)"
| "py_lt (VList a) b = (case b of VList bs \<Rightarrow> py_lt_list a bs | _ \<Rightarrow> Inl TypeError)"
| "py_lt (VDict a) b = Inl TypeError"
| "py_lt_list [] bs = Inr (bs \<noteq> [])"
| "py_lt_list (x # xs) bs =
     (case bs of
        [] \<Rightarrow> Inr False
      | y # ys \<Rightarrow> if py_eq x y then py_lt_list xs ys else py_lt x y)"

text \<open>Lists and dicts are unhashable: using one as a dict key raises \<^verbatim>\<open>TypeError\<close>.\<close>

fun hashable :: "val \<Rightarrow> bool" where
  "hashable (VList _) = False"
| "hashable (VDict _) = False"
| "hashable _ = True"

text \<open>\<^verbatim>\<open>t in s\<close> on strings: \<^verbatim>\<open>t\<close> occurs in \<^verbatim>\<open>s\<close> as a contiguous substring.\<close>

fun is_prefix :: "string \<Rightarrow> string \<Rightarrow> bool" where
  "is_prefix [] s = True"
| "is_prefix (c # cs) [] = False"
| "is_prefix (c # cs) (d # ds) = (c = d \<and> is_prefix cs ds)"

fun is_substring :: "string \<Rightarrow> string \<Rightarrow> bool" where
  "is_substring t [] = (t = [])"
| "is_substring t (d # ds) = (is_prefix t (d # ds) \<or> is_substring t ds)"

text \<open>
  \<^verbatim>\<open>x in container\<close>. In a list: some element is equal to \<^verbatim>\<open>x\<close>. In a string:
  substring test, \<^verbatim>\<open>TypeError\<close> unless \<^verbatim>\<open>x\<close> is a string. In a dict: key
  membership, \<^verbatim>\<open>TypeError\<close> when \<^verbatim>\<open>x\<close> is unhashable. Anything else is not iterable.
\<close>

fun py_in :: "val \<Rightarrow> val \<Rightarrow> error + bool" where
  "py_in x (VList xs) = Inr (list_ex (\<lambda>e. py_eq e x) xs)"
| "py_in x (VStr s) = (case x of VStr t \<Rightarrow> Inr (is_substring t s) | _ \<Rightarrow> Inl TypeError)"
| "py_in x (VDict d) =
     (if \<not> hashable x then Inl TypeError
      else case x of VStr k \<Rightarrow> Inr (k \<in> set (map fst d)) | _ \<Rightarrow> Inr False)"
| "py_in x _ = Inl TypeError"

subsection \<open>Dicts\<close>

text \<open>\<^verbatim>\<open>d.get(k)\<close> and \<^verbatim>\<open>d[k] = v\<close> on a dict with string keys: assignment keeps the
  position of an existing key and appends a new one.\<close>

definition dict_get :: "doc \<Rightarrow> string \<Rightarrow> val" where
  "dict_get d k = (case map_of d k of None \<Rightarrow> VNone | Some v \<Rightarrow> v)"

fun dict_set :: "doc \<Rightarrow> string \<Rightarrow> val \<Rightarrow> doc" where
  "dict_set [] k v = [(k, v)]"
| "dict_set (kv # rest) k v =
     (if fst kv = k then (k, v) # rest else kv # dict_set rest k v)"

text \<open>
  A dict keyed by values (\<^verbatim>\<open>self._docs\<close>, and \<^verbatim>\<open>groups\<close> in \<^verbatim>\<open>$group\<close>): a key is found
  by Python equality, so \<^verbatim>\<open>True\<close> finds \<^verbatim>\<open>1\<close>; assigning to a key that is
  present keeps the key object and its position.
\<close>

fun kd_find :: "(val \<times> 'v) list \<Rightarrow> val \<Rightarrow> 'v option" where
  "kd_find [] k = None"
| "kd_find (kv # rest) k = (if py_eq (fst kv) k then Some (snd kv) else kd_find rest k)"

fun kd_set :: "(val \<times> 'v) list \<Rightarrow> val \<Rightarrow> 'v \<Rightarrow> (val \<times> 'v) list" where
  "kd_set [] k v = [(k, v)]"
| "kd_set (kv # rest) k v =
     (if py_eq (fst kv) k then (fst kv, v) # rest else kv # kd_set rest k v)"

section \<open>The collection\<close>

type_synonym collection = "(val \<times> doc) list"

subsection \<open>\<^verbatim>\<open>_matches\<close>\<close>

text \<open>\<^verbatim>\<open>key.split(".")\<close>\<close>

fun split_dot :: "string \<Rightarrow> string list" where
  "split_dot [] = [[]]"
| "split_dot (c # cs) =
     (if c = CHR ''.'' then [] # split_dot cs
      else case split_dot cs of [] \<Rightarrow> [[c]] | p # ps \<Rightarrow> (c # p) # ps)"

text \<open>
  The inner loop of \<^verbatim>\<open>_matches\<close> over the parts of the key: a dict is descended with
  \<^verbatim>\<open>.get\<close>, anything else gives \<^verbatim>\<open>None\<close> and stops.
\<close>

fun resolve_parts :: "val \<Rightarrow> string list \<Rightarrow> val" where
  "resolve_parts value [] = value"
| "resolve_parts value (part # parts) =
     (case value of
        VDict d \<Rightarrow> resolve_parts (dict_get d part) parts
      | _ \<Rightarrow> VNone)"

definition resolve :: "doc \<Rightarrow> string \<Rightarrow> val" where
  "resolve d path = resolve_parts (VDict d) (split_dot path)"

text \<open>\<^verbatim>\<open>any(v in operand for v in value)\<close>: stops at the first member.\<close>

fun any_in :: "val list \<Rightarrow> val \<Rightarrow> error + bool" where
  "any_in [] operand = Inr False"
| "any_in (v # vs) operand =
     bind_err (py_in v operand) (\<lambda>b. if b then Inr True else any_in vs operand)"

text \<open>
  The loop over the operators of one condition. \<open>Inr False\<close> is the
  \<^verbatim>\<open>return False\<close> of the source, \<open>Inr True\<close> is the loop running to its end. An
  operator other than the three is skipped.
\<close>

fun match_ops :: "val \<Rightarrow> (string \<times> val) list \<Rightarrow> error + bool" where
  "match_ops value [] = Inr True"
| "match_ops value (oo # rest) =
     (if fst oo = ''$in'' then
        bind_err (case value of VList vs \<Rightarrow> any_in vs (snd oo) | _ \<Rightarrow> py_in value (snd oo))
          (\<lambda>b. if \<not> b then Inr False else match_ops value rest)
      else if fst oo = ''$gte'' then
        (if value = VNone then Inr False
         else bind_err (py_lt value (snd oo))
           (\<lambda>b. if b then Inr False else match_ops value rest))
      else if fst oo = ''$lte'' then
        (if value = VNone then Inr False
         else bind_err (py_lt (snd oo) value)
           (\<lambda>b. if b then Inr False else match_ops value rest))
      else match_ops value rest)"

fun matches :: "doc \<Rightarrow> (string \<times> val) list \<Rightarrow> error + bool" where
  "matches d [] = Inr True"
| "matches d (kc # rest) =
     (let value = resolve d (fst kc) in
      case snd kc of
        VDict ops \<Rightarrow>
          bind_err (match_ops value ops) (\<lambda>b. if \<not> b then Inr False else matches d rest)
      | condition \<Rightarrow> if \<not> py_eq value condition then Inr False else matches d rest)"

subsection \<open>\<^verbatim>\<open>count_documents\<close>, \<^verbatim>\<open>insert_one\<close>, \<^verbatim>\<open>find_one\<close>, \<^verbatim>\<open>find\<close> (here \<open>find_docs\<close>)\<close>

text \<open>\<^verbatim>\<open>sum(1 for d in self._docs.values() if self._matches(d, filter))\<close>\<close>

fun count_matching :: "doc list \<Rightarrow> (string \<times> val) list \<Rightarrow> error + nat" where
  "count_matching [] f = Inr 0"
| "count_matching (d # ds) f =
     bind_err (matches d f) (\<lambda>b.
       bind_err (count_matching ds f) (\<lambda>n. Inr (if b then Suc n else n)))"

definition count_documents :: "collection \<Rightarrow> (string \<times> val) list \<Rightarrow> error + nat" where
  "count_documents c f =
     (if f = [] then Inr (length c) else count_matching (map snd c) f)"

text \<open>
  \<^verbatim>\<open>insert_one\<close> stores the document under \<^verbatim>\<open>doc.get("_id")\<close>, which is \<^verbatim>\<open>None\<close>
  when the field is missing. An unhashable \<^verbatim>\<open>_id\<close> raises before anything is
  stored.
\<close>

definition insert_one :: "collection \<Rightarrow> doc \<Rightarrow> error + collection" where
  "insert_one c document =
     (let doc = document; the_id = dict_get doc ''_id'' in
      if hashable the_id then Inr (kd_set c the_id doc) else Inl TypeError)"

text \<open>The scans of \<^verbatim>\<open>find_one\<close> and \<^verbatim>\<open>update_one\<close>: the position of the first stored
  document that matches.\<close>

fun scan :: "doc list \<Rightarrow> (string \<times> val) list \<Rightarrow> error + nat option" where
  "scan [] f = Inr None"
| "scan (d # ds) f =
     bind_err (matches d f) (\<lambda>b.
       if b then Inr (Some 0)
       else bind_err (scan ds f) (\<lambda>r. Inr (map_option Suc r)))"

text \<open>\<^verbatim>\<open>self._docs.get(_id)\<close>, as the position of the key.\<close>

fun kd_index :: "(val \<times> 'v) list \<Rightarrow> val \<Rightarrow> nat option" where
  "kd_index [] k = None"
| "kd_index (kv # rest) k =
     (if py_eq (fst kv) k then Some 0 else map_option Suc (kd_index rest k))"

definition docs_get :: "collection \<Rightarrow> val \<Rightarrow> error + nat option" where
  "docs_get c k = (if hashable k then Inr (kd_index c k) else Inl TypeError)"

text \<open>\<^verbatim>\<open>find_one\<close> looks the \<^verbatim>\<open>_id\<close> up directly only when it is the whole filter;
  an empty stored document is falsy and comes back as \<^verbatim>\<open>None\<close>.\<close>

definition find_one :: "collection \<Rightarrow> (string \<times> val) list \<Rightarrow> error + doc option" where
  "find_one c f =
     (let the_id = dict_get f ''_id'' in
      if the_id \<noteq> VNone \<and> length f = 1 then
        bind_err (docs_get c the_id) (\<lambda>r.
          case r of
            None \<Rightarrow> Inr None
          | Some i \<Rightarrow> let doc = snd (c ! i) in Inr (if doc \<noteq> [] then Some doc else None))
      else
        bind_err (scan (map snd c) f) (\<lambda>r.
          case r of None \<Rightarrow> Inr None | Some i \<Rightarrow> Inr (Some (snd (c ! i)))))"

fun find_loop :: "doc list \<Rightarrow> (string \<times> val) list \<Rightarrow> error + doc list" where
  "find_loop [] f = Inr []"
| "find_loop (d # ds) f =
     (if f \<noteq> [] then
        bind_err (matches d f) (\<lambda>b.
          bind_err (find_loop ds f) (\<lambda>r. Inr (if b then d # r else r)))
      else bind_err (find_loop ds f) (\<lambda>r. Inr (d # r)))"

definition find_docs :: "collection \<Rightarrow> (string \<times> val) list \<Rightarrow> error + doc list" where
  "find_docs c f = find_loop (map snd c) f"

subsection \<open>\<^verbatim>\<open>update_one\<close>\<close>

text \<open>\<^verbatim>\<open>lst.remove(value)\<close>: drops the first element equal to the value.\<close>

fun py_remove :: "val \<Rightarrow> val list \<Rightarrow> val list" where
  "py_remove value [] = []"
| "py_remove value (e # es) = (if py_eq e value then es else e # py_remove value es)"

text \<open>
  One \<^verbatim>\<open>(field, value)\<close> of one operator, on the stored document. The result is
  the document as the step leaves it and the exception raised, if any:
  \<^verbatim>\<open>$push\<close> on a field that holds something other than a list has no
  \<^verbatim>\<open>append\<close>; \<^verbatim>\<open>$pull\<close> tests \<^verbatim>\<open>value in lst\<close> first and then needs \<^verbatim>\<open>remove\<close>.

  The model works on values: a list is the sequence of its elements. The code
  appends to and removes from the stored list object in place, and \<^verbatim>\<open>$set\<close>
  stores the caller's object. When one list object is reachable twice (given
  twice in an update, or shared between documents), \<^verbatim>\<open>$push\<close> and \<^verbatim>\<open>$pull\<close>
  change it in the code wherever it is reachable, and here only in the field
  addressed. What follows therefore states the content of the field addressed
  for every update, and the whole collection after an update only for updates
  without \<^verbatim>\<open>$push\<close> and \<^verbatim>\<open>$pull\<close>, which rebind fields and change no list.
\<close>

definition apply_field :: "string \<Rightarrow> doc \<Rightarrow> string \<times> val \<Rightarrow> doc \<times> error option" where
  "apply_field opr doc fv =
     (let field = fst fv; value = snd fv in
      if opr = ''$push'' then
        (case map_of doc field of
           None \<Rightarrow> (dict_set doc field (VList [value]), None)
         | Some (VList xs) \<Rightarrow> (dict_set doc field (VList (xs @ [value])), None)
         | Some _ \<Rightarrow> (doc, Some AttributeError))
      else if opr = ''$pull'' then
        (case map_of doc field of
           None \<Rightarrow> (doc, None)
         | Some lst \<Rightarrow>
             (case py_in value lst of
                Inl e \<Rightarrow> (doc, Some e)
              | Inr False \<Rightarrow> (doc, None)
              | Inr True \<Rightarrow>
                  (case lst of
                     VList xs \<Rightarrow> (dict_set doc field (VList (py_remove value xs)), None)
                   | _ \<Rightarrow> (doc, Some AttributeError))))
      else if opr = ''$set'' then (dict_set doc field value, None)
      else (doc, None))"

fun apply_fields :: "string \<Rightarrow> doc \<Rightarrow> (string \<times> val) list \<Rightarrow> doc \<times> error option" where
  "apply_fields opr doc [] = (doc, None)"
| "apply_fields opr doc (fv # rest) =
     (case apply_field opr doc fv of
        (doc', None) \<Rightarrow> apply_fields opr doc' rest
      | (doc', Some e) \<Rightarrow> (doc', Some e))"

text \<open>The loop over \<^verbatim>\<open>update.items()\<close>; \<^verbatim>\<open>fields.items()\<close> needs a dict.\<close>

fun apply_update :: "doc \<Rightarrow> (string \<times> val) list \<Rightarrow> doc \<times> error option" where
  "apply_update doc [] = (doc, None)"
| "apply_update doc (opf # rest) =
     (case snd opf of
        VDict fields \<Rightarrow>
          (case apply_fields (fst opf) doc fields of
             (doc', None) \<Rightarrow> apply_update doc' rest
           | (doc', Some e) \<Rightarrow> (doc', Some e))
      | _ \<Rightarrow> (doc, Some AttributeError))"

text \<open>
  \<^verbatim>\<open>update_one\<close> returns the collection as the call leaves it, also when it
  raises, and either the exception or \<^verbatim>\<open>modified_count\<close>. The stored document
  is changed in place, so it keeps its key and its position.
\<close>

definition select_doc :: "collection \<Rightarrow> (string \<times> val) list \<Rightarrow> error + nat option" where
  "select_doc c f =
     (let the_id = dict_get f ''_id'' in
      if the_id \<noteq> VNone then docs_get c the_id else scan (map snd c) f)"

definition update_one ::
  "collection \<Rightarrow> (string \<times> val) list \<Rightarrow> (string \<times> val) list \<Rightarrow> collection \<times> (error + nat)" where
  "update_one c f update =
     (case select_doc c f of
        Inl e \<Rightarrow> (c, Inl e)
      | Inr None \<Rightarrow> (c, Inr 0)
      | Inr (Some i) \<Rightarrow>
          (case apply_update (snd (c ! i)) update of
             (doc', None) \<Rightarrow> (c[i := (fst (c ! i), doc')], Inr 1)
           | (doc', Some e) \<Rightarrow> (c[i := (fst (c ! i), doc')], Inl e)))"

subsection \<open>\<^verbatim>\<open>aggregate\<close>\<close>

text \<open>\<^verbatim>\<open>.lstrip("$")\<close>\<close>

fun lstrip_dollar :: "string \<Rightarrow> string" where
  "lstrip_dollar [] = []"
| "lstrip_dollar (c # cs) = (if c = CHR ''$'' then lstrip_dollar cs else c # cs)"

text \<open>
  The path loop of \<^verbatim>\<open>$unwind\<close>: a missing key and a value that is not a dict both
  give the empty list.
\<close>

fun unwind_value :: "val \<Rightarrow> string list \<Rightarrow> val" where
  "unwind_value value [] = value"
| "unwind_value value (p # ps) =
     unwind_value
       (case value of
          VDict d \<Rightarrow> (case map_of d p of None \<Rightarrow> VList [] | Some w \<Rightarrow> w)
        | _ \<Rightarrow> VList [])
       ps"

text \<open>
  ``set nested value'': walk \<^verbatim>\<open>parts[:-1]\<close> with \<^verbatim>\<open>obj[p]\<close>, then assign
  \<^verbatim>\<open>obj[parts[-1]] = v\<close>. A missing key is a \<^verbatim>\<open>KeyError\<close>, a value that is not a
  dict cannot be indexed by a string.
\<close>

fun set_path :: "doc \<Rightarrow> string list \<Rightarrow> val \<Rightarrow> error + doc" where
  "set_path d [] v = Inl IndexError"
| "set_path d [p] v = Inr (dict_set d p v)"
| "set_path d (p # q # ps) v =
     (case map_of d p of
        None \<Rightarrow> Inl KeyError
      | Some (VDict d') \<Rightarrow>
          bind_err (set_path d' (q # ps) v) (\<lambda>d''. Inr (dict_set d p (VDict d'')))
      | Some _ \<Rightarrow> Inl TypeError)"

fun unwind_elems :: "doc \<Rightarrow> string list \<Rightarrow> val list \<Rightarrow> error + doc list" where
  "unwind_elems doc parts [] = Inr []"
| "unwind_elems doc parts (v # vs) =
     bind_err (set_path doc parts v) (\<lambda>d.
       bind_err (unwind_elems doc parts vs) (\<lambda>r. Inr (d # r)))"

definition unwind_doc :: "string list \<Rightarrow> doc \<Rightarrow> error + doc list" where
  "unwind_doc parts doc =
     (case unwind_value (VDict doc) parts of
        VList vs \<Rightarrow> unwind_elems doc parts vs
      | _ \<Rightarrow> Inr [doc])"

fun unwind_docs :: "string list \<Rightarrow> doc list \<Rightarrow> error + doc list" where
  "unwind_docs parts [] = Inr []"
| "unwind_docs parts (doc # docs) =
     bind_err (unwind_doc parts doc) (\<lambda>new.
       bind_err (unwind_docs parts docs) (\<lambda>r. Inr (new @ r)))"

definition unwind_stage :: "val \<Rightarrow> doc list \<Rightarrow> error + doc list" where
  "unwind_stage arg docs =
     (case arg of
        VStr s \<Rightarrow> unwind_docs (split_dot (lstrip_dollar s)) docs
      | _ \<Rightarrow> Inl AttributeError)"

text \<open>The path loop of \<^verbatim>\<open>$group\<close>.\<close>

fun group_value :: "val \<Rightarrow> string list \<Rightarrow> val" where
  "group_value v [] = v"
| "group_value v (p # ps) =
     group_value (case v of VDict d \<Rightarrow> dict_get d p | _ \<Rightarrow> VNone) ps"

fun group_docs :: "val \<Rightarrow> string list option \<Rightarrow> (val \<times> doc) list \<Rightarrow> doc list
    \<Rightarrow> error + (val \<times> doc) list" where
  "group_docs id_expr key_path groups [] = Inr groups"
| "group_docs id_expr key_path groups (doc # docs) =
     (let v = (case key_path of Some ps \<Rightarrow> group_value (VDict doc) ps | None \<Rightarrow> id_expr) in
      if hashable v then group_docs id_expr key_path (kd_set groups v [(''_id'', v)]) docs
      else Inl TypeError)"

text \<open>
  \<^verbatim>\<open>group_spec["_id"]\<close> needs a dict that has the key. \<^verbatim>\<open>split\<close> never returns
  an empty list, so \<^verbatim>\<open>if key_path\<close> holds whenever the expression starts with a
  dollar sign.
\<close>

definition group_stage :: "val \<Rightarrow> doc list \<Rightarrow> error + doc list" where
  "group_stage group_spec docs =
     (case group_spec of
        VDict gs \<Rightarrow>
          (case map_of gs ''_id'' of
             None \<Rightarrow> Inl KeyError
           | Some id_expr \<Rightarrow>
               (let key_path =
                  (case id_expr of
                     VStr s \<Rightarrow>
                       if s \<noteq> [] \<and> hd s = CHR ''$'' then Some (split_dot (lstrip_dollar s))
                       else None
                   | _ \<Rightarrow> None)
                in bind_err (group_docs id_expr key_path [] docs) (\<lambda>g. Inr (map snd g))))
      | _ \<Rightarrow> Inl TypeError)"

text \<open>
  \<^verbatim>\<open>docs.sort(key=..., reverse=...)\<close> compares keys with \<^verbatim>\<open><\<close> only and is
  stable. It is modelled by insertion from the right, each element going in
  front of the first one that is not smaller. For two elements this makes the one
  comparison Python makes, the key of the second against the key of the first.
  Whenever no comparison between two keys raises, any stable sort gives this
  result; when the keys are scalars and two of them do not compare, Python
  raises as the model does. With \<^verbatim>\<open>reverse=True\<close> Python reverses the list, sorts,
  and reverses the result.
\<close>

fun py_insort :: "val \<times> doc \<Rightarrow> (val \<times> doc) list \<Rightarrow> error + (val \<times> doc) list" where
  "py_insort x [] = Inr [x]"
| "py_insort x (y # ys) =
     bind_err (py_lt (fst y) (fst x)) (\<lambda>b.
       if b then bind_err (py_insort x ys) (\<lambda>r. Inr (y # r))
       else Inr (x # y # ys))"

fun py_sort_asc :: "(val \<times> doc) list \<Rightarrow> error + (val \<times> doc) list" where
  "py_sort_asc [] = Inr []"
| "py_sort_asc (x # xs) = bind_err (py_sort_asc xs) (py_insort x)"

text \<open>\<^verbatim>\<open>d.get(k, "")\<close>\<close>

definition sort_key_of :: "string \<Rightarrow> doc \<Rightarrow> val" where
  "sort_key_of k d = (case map_of d k of None \<Rightarrow> VStr [] | Some v \<Rightarrow> v)"

definition py_sort :: "string \<Rightarrow> bool \<Rightarrow> doc list \<Rightarrow> error + doc list" where
  "py_sort k reverse docs =
     (let keyed = map (\<lambda>d. (sort_key_of k d, d)) docs in
      if reverse then
        bind_err (py_sort_asc (rev keyed)) (\<lambda>r. Inr (rev (map snd r)))
      else bind_err (py_sort_asc keyed) (\<lambda>r. Inr (map snd r)))"

text \<open>The loop over \<^verbatim>\<open>reversed(sort_spec.items())\<close>, given the reversed items.\<close>

fun sort_loop :: "(string \<times> val) list \<Rightarrow> doc list \<Rightarrow> error + doc list" where
  "sort_loop [] docs = Inr docs"
| "sort_loop (kd # rest) docs =
     bind_err (py_sort (fst kd) (py_eq (snd kd) (VInt (- 1))) docs) (sort_loop rest)"

definition sort_stage :: "val \<Rightarrow> doc list \<Rightarrow> error + doc list" where
  "sort_stage sort_spec docs =
     (case sort_spec of
        VDict items \<Rightarrow> sort_loop (rev items) docs
      | _ \<Rightarrow> Inl AttributeError)"

text \<open>One stage: the \<^verbatim>\<open>if/elif\<close> chain has no \<^verbatim>\<open>else\<close>.\<close>

definition run_stage :: "(string \<times> val) list \<Rightarrow> doc list \<Rightarrow> error + doc list" where
  "run_stage stage docs =
     (case map_of stage ''$unwind'' of
        Some arg \<Rightarrow> unwind_stage arg docs
      | None \<Rightarrow>
          (case map_of stage ''$group'' of
             Some group_spec \<Rightarrow> group_stage group_spec docs
           | None \<Rightarrow>
               (case map_of stage ''$sort'' of
                  Some sort_spec \<Rightarrow> sort_stage sort_spec docs
                | None \<Rightarrow> Inr docs)))"

fun run_pipeline :: "(string \<times> val) list list \<Rightarrow> doc list \<Rightarrow> error + doc list" where
  "run_pipeline [] docs = Inr docs"
| "run_pipeline (stage # rest) docs = bind_err (run_stage stage docs) (run_pipeline rest)"

definition aggregate :: "collection \<Rightarrow> (string \<times> val) list list \<Rightarrow> error + doc list" where
  "aggregate c pipeline = run_pipeline pipeline (map snd c)"

section \<open>The store and its seeding\<close>

record store =
  activities_collection :: collection
  teachers_collection :: collection

definition empty_store :: store where
  "empty_store = \<lparr>activities_collection = [], teachers_collection = []\<rparr>"

definition initial_activities :: "(string \<times> doc) list" where
  "initial_activities =
    [(''Chess Club'',
      [(''description'', VStr ''Learn strategies and compete in chess tournaments''),
       (''schedule'', VStr ''Mondays and Fridays, 3:15 PM - 4:45 PM''),
       (''schedule_details'', VDict
         [(''days'', VList [VStr ''Monday'', VStr ''Friday'']),
          (''start_time'', VStr ''15:15''),
          (''end_time'', VStr ''16:45'')]),
       (''max_participants'', VInt 12),
       (''participants'', VList [VStr ''michael@mergington.edu'', VStr ''daniel@mergington.edu''])]),
     (''Programming Class'',
      [(''description'', VStr ''Learn programming fundamentals and build software projects''),
       (''schedule'', VStr ''Tuesdays and Thursdays, 7:00 AM - 8:00 AM''),
       (''schedule_details'', VDict
         [(''days'', VList [VStr ''Tuesday'', VStr ''Thursday'']),
          (''start_time'', VStr ''07:00''),
          (''end_time'', VStr ''08:00'')]),
       (''max_participants'', VInt 20),
       (''participants'', VList [VStr ''emma@mergington.edu'', VStr ''sophia@mergington.edu''])]),
     (''Morning Fitness'',
      [(''description'', VStr ''Early morning physical training and exercises''),
       (''schedule'', VStr ''Mondays, Wednesdays, Fridays, 6:30 AM - 7:45 AM''),
       (''schedule_details'', VDict
         [(''days'', VList [VStr ''Monday'', VStr ''Wednesday'', VStr ''Friday'']),
          (''start_time'', VStr ''06:30''),
          (''end_time'', VStr ''07:45'')]),
       (''max_participants'', VInt 30),
       (''participants'', VList [VStr ''john@mergington.edu'', VStr ''olivia@mergington.edu''])]),
     (''Soccer Team'',
      [(''description'', VStr ''Join the school soccer team and compete in matches''),
       (''schedule'', VStr ''Tuesdays and Thursdays, 3:30 PM - 5:30 PM''),
       (''schedule_details'', VDict
         [(''days'', VList [VStr ''Tuesday'', VStr ''Thursday'']),
          (''start_time'', VStr ''15:30''),
          (''end_time'', VStr ''17:30'')]),
       (''max_participants'', VInt 22),
       (''participants'', VList [VStr ''liam@mergington.edu'', VStr ''noah@mergington.edu''])]),
     (''Basketball Team'',
      [(''description'', VStr ''Practice and compete in basketball tournaments''),
       (''schedule'', VStr ''Wednesdays and Fridays, 3:15 PM - 5:00 PM''),
       (''schedule_details'', VDict
         [(''days'', VList [VStr ''Wednesday'', VStr ''Friday'']),
          (''start_time'', VStr ''15:15''),
          (''end_time'', VStr ''17:00'')]),
       (''max_participants'', VInt 15),
       (''participants'', VList [VStr ''ava@mergington.edu'', VStr ''mia@mergington.edu''])]),
     (''Art Club'',
      [(''description'', VStr ''Explore various art techniques and create masterpieces''),
       (''schedule'', VStr ''Thursdays, 3:15 PM - 5:00 PM''),
       (''schedule_details'', VDict
         [(''days'', VList [VStr ''Thursday'']),
          (''start_time'', VStr ''15:15''),
          (''end_time'', VStr ''17:00'')]),
       (''max_participants'', VInt 15),
       (''participants'', VList [VStr ''amelia@mergington.edu'', VStr ''harper@mergington.edu''])]),
     (''Drama Club'',
      [(''description'', VStr ''Act, direct, and produce plays and performances''),
       (''schedule'', VStr ''Mondays and Wednesdays, 3:30 PM - 5:30 PM''),
       (''schedule_details'', VDict
         [(''days'', VList [VStr ''Monday'', VStr ''Wednesday'']),
          (''start_time'', VStr ''15:30''),
          (''end_time'', VStr ''17:30'')]),
       (''max_participants'', VInt 20),
       (''participants'', VList [VStr ''ella@mergington.edu'', VStr ''scarlett@mergington.edu''])]),
     (''Math Club'',
      [(''description'', VStr ''Solve challenging problems and prepare for math competitions''),
       (''schedule'', VStr ''Tuesdays, 7:15 AM - 8:00 AM''),
       (''schedule_details'', VDict
         [(''days'', VList [VStr ''Tuesday'']),
          (''start_time'', VStr ''07:15''),
          (''end_time'', VStr ''08:00'')]),
       (''max_participants'', VInt 10),
       (''participants'', VList [VStr ''james@mergington.edu'', VStr ''benjamin@mergington.edu''])]),
     (''Debate Team'',
      [(''description'', VStr ''Develop public speaking and argumentation skills''),
       (''schedule'', VStr ''Fridays, 3:30 PM - 5:30 PM''),
       (''schedule_details'', VDict
         [(''days'', VList [VStr ''Friday'']),
          (''start_time'', VStr ''15:30''),
          (''end_time'', VStr ''17:30'')]),
       (''max_participants'', VInt 12),
       (''participants'', VList [VStr ''charlotte@mergington.edu'', VStr ''amelia@mergington.edu''])]),
     (''Weekend Robotics Workshop'',
      [(''description'', VStr ''Build and program robots in our state-of-the-art workshop''),
       (''schedule'', VStr ''Saturdays, 10:00 AM - 2:00 PM''),
       (''schedule_details'', VDict
         [(''days'', VList [VStr ''Saturday'']),
          (''start_time'', VStr ''10:00''),
          (''end_time'', VStr ''14:00'')]),
       (''max_participants'', VInt 15),
       (''participants'', VList [VStr ''ethan@mergington.edu'', VStr ''oliver@mergington.edu''])]),
     (''Science Olympiad'',
      [(''description'', VStr ''Weekend science competition preparation for regional and state events''),
       (''schedule'', VStr ''Saturdays, 1:00 PM - 4:00 PM''),
       (''schedule_details'', VDict
         [(''days'', VList [VStr ''Saturday'']),
          (''start_time'', VStr ''13:00''),
          (''end_time'', VStr ''16:00'')]),
       (''max_participants'', VInt 18),
       (''participants'', VList [VStr ''isabella@mergington.edu'', VStr ''lucas@mergington.edu''])]),
     (''Sunday Chess Tournament'',
      [(''description'', VStr ''Weekly tournament for serious chess players with rankings''),
       (''schedule'', VStr ''Sundays, 2:00 PM - 5:00 PM''),
       (''schedule_details'', VDict
         [(''days'', VList [VStr ''Sunday'']),
          (''start_time'', VStr ''14:00''),
          (''end_time'', VStr ''17:00'')]),
       (''max_participants'', VInt 16),
       (''participants'', VList [VStr ''william@mergington.edu'', VStr ''jacob@mergington.edu''])])]"

text \<open>
  The teachers' passwords are hashed with Argon2 when the module is loaded;
  the hash function is a parameter.
\<close>

definition initial_teachers :: "(string \<Rightarrow> string) \<Rightarrow> doc list" where
  "initial_teachers hash_password =
    [[(''username'', VStr ''mrodriguez''),
      (''display_name'', VStr ''Ms. Rodriguez''),
      (''password'', VStr (hash_password ''art123'')),
      (''role'', VStr ''teacher'')],
     [(''username'', VStr ''mchen''),
      (''display_name'', VStr ''Mr. Chen''),
      (''password'', VStr (hash_password ''chess456'')),
      (''role'', VStr ''teacher'')],
     [(''username'', VStr ''principal''),
      (''display_name'', VStr ''Principal Martinez''),
      (''password'', VStr (hash_password ''admin789'')),
      (''role'', VStr ''admin'')]]"

text \<open>\<^verbatim>\<open>{"_id": x, **details}\<close>: the later items overwrite an earlier key.\<close>

fun dict_merge :: "doc \<Rightarrow> doc \<Rightarrow> doc" where
  "dict_merge d [] = d"
| "dict_merge d (kv # rest) = dict_merge (dict_set d (fst kv) (snd kv)) rest"

text \<open>The two seeding loops: the collection as the loop leaves it, and the
  exception that stopped it, if any.\<close>

fun seed_activities :: "(string \<times> doc) list \<Rightarrow> collection \<Rightarrow> collection \<times> error option" where
  "seed_activities [] c = (c, None)"
| "seed_activities (nd # rest) c =
     (case insert_one c (dict_merge [(''_id'', VStr (fst nd))] (snd nd)) of
        Inl e \<Rightarrow> (c, Some e)
      | Inr c' \<Rightarrow> seed_activities rest c')"

fun seed_teachers :: "doc list \<Rightarrow> collection \<Rightarrow> collection \<times> error option" where
  "seed_teachers [] c = (c, None)"
| "seed_teachers (teacher # rest) c =
     (case map_of teacher ''username'' of
        None \<Rightarrow> (c, Some KeyError)
      | Some u \<Rightarrow>
          (case insert_one c (dict_merge [(''_id'', u)] teacher) of
             Inl e \<Rightarrow> (c, Some e)
           | Inr c' \<Rightarrow> seed_teachers rest c'))"

definition init_database :: "(string \<Rightarrow> string) \<Rightarrow> store \<Rightarrow> store \<times> error option" where
  "init_database hash_password s =
     (case (if count_documents (activities_collection s) [] = Inr 0
            then seed_activities initial_activities (activities_collection s)
            else (activities_collection s, None)) of
        (a, Some e) \<Rightarrow> (s\<lparr>activities_collection := a\<rparr>, Some e)
      | (a, None) \<Rightarrow>
          (case (if count_documents (teachers_collection s) [] = Inr 0
                 then seed_teachers (initial_teachers hash_password) (teachers_collection s)
                 else (teachers_collection s, None)) of
             (t, r) \<Rightarrow> (s\<lparr>activities_collection := a, teachers_collection := t\<rparr>, r)))"

section \<open>Notions of the specification\<close>

text \<open>
  ``Every stored document's own \<^verbatim>\<open>_id\<close> equals its key'', with Python's equality.
  A document without the field has \<^verbatim>\<open>None\<close> there.
\<close>

definition id_invariant :: "collection \<Rightarrow> bool" where
  "id_invariant c = list_all (\<lambda>kd. py_eq (dict_get (snd kd) ''_id'') (fst kd)) c"

text \<open>
  A sequence of calls on one collection. A call that raises is survived by the
  caller: a failed \<^verbatim>\<open>insert_one\<close> stores nothing, a failed \<^verbatim>\<open>update_one\<close> leaves
  what it had changed before it raised.
\<close>

datatype call =
    InsertOne doc
  | UpdateOne "(string \<times> val) list" "(string \<times> val) list"

fun run_calls :: "call list \<Rightarrow> collection \<Rightarrow> collection" where
  "run_calls [] c = c"
| "run_calls (InsertOne d # rest) c =
     run_calls rest (case insert_one c d of Inl e \<Rightarrow> c | Inr c' \<Rightarrow> c')"
| "run_calls (UpdateOne f u # rest) c = run_calls rest (fst (update_one c f u))"

text \<open>The update names the field \<^verbatim>\<open>_id\<close> under one of its operators.\<close>

definition names_id :: "(string \<times> val) list \<Rightarrow> bool" where
  "names_id u =
     list_ex (\<lambda>opf. case snd opf of VDict fs \<Rightarrow> ''_id'' \<in> fst ` set fs | _ \<Rightarrow> False) u"

fun updates_avoid_id :: "call list \<Rightarrow> bool" where
  "updates_avoid_id [] = True"
| "updates_avoid_id (InsertOne d # rest) = updates_avoid_id rest"
| "updates_avoid_id (UpdateOne f u # rest) = (\<not> names_id u \<and> updates_avoid_id rest)"





text \<open>
  The order of \<^verbatim>\<open>$sort\<close>. Python's \<^verbatim>\<open><\<close> is defined between two numbers, between two
  strings, and between two lists whose first differing elements compare. The
  encoding below maps every value to a sequence of tokens such that, wherever
  \<^verbatim>\<open><\<close> is defined, it is the lexicographic order of the encodings, and two values
  that compare have the same encoding exactly when they are equal (\<^verbatim>\<open>==\<close>):
  numbers by value (\<^verbatim>\<open>True\<close> is 1), strings by code points, lists element by
  element, a proper prefix first. Between values that Python does not compare
  the encoding fixes some order; it is never asked for there.
\<close>

type_synonym tok = "nat \<times> int"

fun enc_str :: "string \<Rightarrow> tok list" where
  "enc_str [] = [(0, 0)]"
| "enc_str (c # cs) = (1, int (of_char c)) # enc_str cs"

fun enc :: "val \<Rightarrow> tok list" and enc_list :: "val list \<Rightarrow> tok list" where
  "enc VNone = [(1, 0)]"
| "enc (VBool b) = [(2, (if b then 1 else 0))]"
| "enc (VInt i) = [(2, i)]"
| "enc (VStr s) = (3, 0) # enc_str s"
| "enc (VList xs) = (4, 0) # enc_list xs"
| "enc (VDict d) = [(5, 0)]"
| "enc_list [] = [(0, 0)]"
| "enc_list (x # xs) = enc x @ enc_list xs"

text \<open>
  The stable sort, sortedness and comparators of \<open>HOL-Library.Sorting_Algorithms\<close>:
  \<open>stable_sort_by c\<close> sorts by insertion and keeps elements that \<open>c\<close> finds
  equivalent in their order; \<open>sorted_by c xs\<close> says that no element of \<open>xs\<close> is
  greater than its successor.
\<close>

abbreviation stable_sort_by :: "'a comparator \<Rightarrow> 'a list \<Rightarrow> 'a list" where
  "stable_sort_by \<equiv> Sorting_Algorithms.sort"

abbreviation sorted_by :: "'a comparator \<Rightarrow> 'a list \<Rightarrow> bool" where
  "sorted_by \<equiv> Sorting_Algorithms.sorted"

abbreviation enc_cmp :: "(val \<times> doc) comparator" where
  "enc_cmp \<equiv> key (\<lambda>p. enc (fst p)) default"

text \<open>The order one item \<^verbatim>\<open>key: direction\<close> of a sort specification asks for:
  by the value at the key, an absent one read as \<^verbatim>\<open>""\<close>; descending when the
  direction is \<^verbatim>\<open>-1\<close>.\<close>

definition key_cmp :: "string \<times> val \<Rightarrow> doc comparator" where
  "key_cmp kd =
     (if py_eq (snd kd) (VInt (- 1))
      then reversed (key (\<lambda>d. enc (sort_key_of (fst kd) d)) default)
      else key (\<lambda>d. enc (sort_key_of (fst kd) d)) default)"

text \<open>The multi-key order of a whole specification: lexicographic, the
  first-declared key deciding first.\<close>

fun spec_cmp :: "(string \<times> val) list \<Rightarrow> doc comparator" where
  "spec_cmp [] = flat"
| "spec_cmp (kd # rest) = key (\<lambda>d. (d, d)) (prod_lex (key_cmp kd) (spec_cmp rest))"

text \<open>
  Two values compare when \<^verbatim>\<open><\<close> between them raises nothing. The documents have
  comparable keys when there is at most one document, or at every sort key any
  two of their values compare.
\<close>

definition comparable :: "val \<Rightarrow> val \<Rightarrow> bool" where
  "comparable a b = (case py_lt a b of Inl e \<Rightarrow> False | Inr r \<Rightarrow> True)"

definition comparable_keys :: "(string \<times> val) list \<Rightarrow> doc list \<Rightarrow> bool" where
  "comparable_keys spec docs =
     (length docs \<le> 1
      \<or> (\<forall>kd\<in>set spec. \<forall>a\<in>set docs. \<forall>b\<in>set docs.
            comparable (sort_key_of (fst kd) a) (sort_key_of (fst kd) b)))"

section \<open>The query matcher\<close>

lemma any_in_list:
  "any_in vs (VList ops) = Inr (\<exists>v\<in>set vs. \<exists>e\<in>set ops. py_eq e v)"
  by (induction vs) (auto simp: bind_err_def list_ex_iff)

lemma match_ops_in:
  "match_ops value [(''$in'', VList ops)] =
     Inr (case value of
            VList vs \<Rightarrow> (\<exists>v\<in>set vs. \<exists>e\<in>set ops. py_eq e v)
          | v \<Rightarrow> (\<exists>e\<in>set ops. py_eq e v))"
  by (cases "value") (auto simp: bind_err_def list_ex_iff any_in_list)

text \<open>
  Claim C7. A condition \<^verbatim>\<open>{path: {$in: O}}\<close> with a list \<open>O\<close> never raises. When the
  value resolved at the path is a list it matches iff some element of that list
  is equal to a member of \<open>O\<close>; otherwise it matches iff the value itself is
  equal to a member of \<open>O\<close> (an absent path resolves to \<^verbatim>\<open>None\<close>).
\<close>

theorem in_condition_semantics:
  "matches d [(path, VDict [(''$in'', VList ops)])] =
     Inr (case resolve d path of
            VList vs \<Rightarrow> (\<exists>v\<in>set vs. \<exists>e\<in>set ops. py_eq e v)
          | v \<Rightarrow> (\<exists>e\<in>set ops. py_eq e v))"
  by (simp only: matches.simps Let_def fst_conv snd_conv val.case match_ops_in bind_err_def sum.case)
     (simp split: val.split)

text \<open>The two examples of the specification: \<^verbatim>\<open>tags = ["a", "b"]\<close> matches
  \<^verbatim>\<open>{tags: {$in: ["b", "c"]}}\<close> and does not match \<^verbatim>\<open>{tags: {$in: ["x", "y"]}}\<close>.\<close>

theorem in_condition_semantics_witness:
  "matches [(''tags'', VList [VStr ''a'', VStr ''b''])]
     [(''tags'', VDict [(''$in'', VList [VStr ''b'', VStr ''c''])])] = Inr True
   \<and> matches [(''tags'', VList [VStr ''a'', VStr ''b''])]
     [(''tags'', VDict [(''$in'', VList [VStr ''x'', VStr ''y''])])] = Inr False"
  using in_condition_semantics [of "[(''tags'', VList [VStr ''a'', VStr ''b''])]" "''tags''" "[VStr ''b'', VStr ''c'']"]
    in_condition_semantics [of "[(''tags'', VList [VStr ''a'', VStr ''b''])]" "''tags''" "[VStr ''x'', VStr ''y'']"]
  by (simp add: resolve_def dict_get_def)

section \<open>Collection keys and \<^verbatim>\<open>insert_one\<close>\<close>

lemma py_eq_refl_hashable: "hashable k \<Longrightarrow> py_eq k k"
  by (cases k) auto

lemma py_eq_sym_hashable: "hashable a \<or> hashable b \<Longrightarrow> py_eq a b \<Longrightarrow> py_eq b a"
  by (cases a; cases b) (auto split: if_splits)

lemma kd_find_kd_set_same: "py_eq k k \<Longrightarrow> kd_find (kd_set c k v) k = Some v"
  by (induction c) auto

lemma kd_set_kd_set_same: "py_eq k k \<Longrightarrow> kd_set (kd_set c k v) k w = kd_set c k w"
  by (induction c) auto

text \<open>
  Claim C10. \<^verbatim>\<open>insert_one\<close> of a document without an \<^verbatim>\<open>_id\<close> field does not fail:
  the document is stored under the key \<^verbatim>\<open>None\<close>. Inserting a second such document
  succeeds too and leaves the collection as if only the second one had been
  inserted: the first is overwritten, nothing is added.
\<close>

theorem insert_one_missing_id:
  assumes "map_of d1 ''_id'' = None" and "map_of d2 ''_id'' = None"
  shows "insert_one c d1 = Inr (kd_set c VNone d1)
       \<and> kd_find (kd_set c VNone d1) VNone = Some d1
       \<and> insert_one (kd_set c VNone d1) d2 = Inr (kd_set c VNone d2)
       \<and> kd_find (kd_set c VNone d2) VNone = Some d2
       \<and> length (kd_set c VNone d2) = length (kd_set c VNone d1)"
proof -
  have len: "length (kd_set c k v) = length (kd_set c k w)" for k and v w :: doc
    by (induction c) auto
  from assms show ?thesis
    by (simp add: insert_one_def dict_get_def kd_find_kd_set_same kd_set_kd_set_same len)
qed

theorem insert_one_missing_id_witness:
  "insert_one [] [(''name'', VStr ''a'')] = Inr [(VNone, [(''name'', VStr ''a'')])]
   \<and> insert_one [(VNone, [(''name'', VStr ''a'')])] [(''name'', VStr ''b'')]
       = Inr [(VNone, [(''name'', VStr ''b'')])]"
  using insert_one_missing_id [of "[(''name'', VStr ''a'')]" "[(''name'', VStr ''b'')]" "[]"]
  by simp

section \<open>\<^verbatim>\<open>update_one\<close>\<close>

text \<open>On the scanning path a filter that no stored document matches changes
  nothing.\<close>

lemma update_one_no_match_scan:
  assumes "dict_get f ''_id'' = VNone" and "\<forall>kd\<in>set c. matches (snd kd) f = Inr False"
  shows "update_one c f u = (c, Inr 0)"
proof -
  have "scan ds f = Inr None" if "\<forall>d\<in>set ds. matches d f = Inr False" for ds
    using that by (induction ds) (auto simp: bind_err_def)
  with assms show ?thesis
    by (simp add: update_one_def select_doc_def)
qed

text \<open>
  Claim C1. ``If no stored document matches the filter, \<^verbatim>\<open>update_one\<close> returns 0
  and changes nothing, also when the filter holds an \<^verbatim>\<open>_id\<close> key next to other
  conditions.'' The code does otherwise: the stored document \<^verbatim>\<open>{_id: 1, a: 1}\<close>
  does not match \<^verbatim>\<open>{_id: 1, a: 2}\<close>, yet \<^verbatim>\<open>update_one\<close> with that filter and
  \<^verbatim>\<open>{$set: {a: 3}}\<close> changes it and returns 1, while \<^verbatim>\<open>find_one\<close> with the same
  filter finds nothing.
\<close>

theorem update_one_id_ignores_conditions:
  "matches [(''_id'', VInt 1), (''a'', VInt 1)] [(''_id'', VInt 1), (''a'', VInt 2)] = Inr False
   \<and> update_one [(VInt 1, [(''_id'', VInt 1), (''a'', VInt 1)])]
        [(''_id'', VInt 1), (''a'', VInt 2)] [(''$set'', VDict [(''a'', VInt 3)])]
       = ([(VInt 1, [(''_id'', VInt 1), (''a'', VInt 3)])], Inr 1)
   \<and> find_one [(VInt 1, [(''_id'', VInt 1), (''a'', VInt 1)])]
        [(''_id'', VInt 1), (''a'', VInt 2)] = Inr None"
  by (simp add: update_one_def select_doc_def docs_get_def find_one_def dict_get_def
      resolve_def bind_err_def apply_field_def)










section \<open>The \<^verbatim>\<open>_id\<close> invariant\<close>

lemma map_of_dict_set: "map_of (dict_set d k v) k' = (if k' = k then Some v else map_of d k')"
  by (induction d) auto

lemma dict_get_dict_set: "dict_get (dict_set d k v) k' = (if k' = k then v else dict_get d k')"
  by (simp add: dict_get_def map_of_dict_set)

lemma apply_field_keeps_id:
  "fst fv \<noteq> ''_id'' \<Longrightarrow> dict_get (fst (apply_field opr d fv)) ''_id'' = dict_get d ''_id''"
  by (auto simp: apply_field_def Let_def dict_get_dict_set split: option.splits val.splits sum.splits bool.splits)

lemma apply_fields_keeps_id:
  "''_id'' \<notin> fst ` set fs \<Longrightarrow> dict_get (fst (apply_fields opr d fs)) ''_id'' = dict_get d ''_id''"
proof (induction fs arbitrary: d)
  case Nil
  then show ?case by simp
next
  case (Cons fv fs)
  obtain d' r where a: "apply_field opr d fv = (d', r)" by (cases "apply_field opr d fv")
  from Cons.prems have "fst fv \<noteq> ''_id''" by auto
  then have "dict_get d' ''_id'' = dict_get d ''_id''"
    using apply_field_keeps_id [of fv opr d] a by simp
  with Cons a show ?case by (cases r) auto
qed

lemma apply_update_keeps_id:
  "\<not> names_id u \<Longrightarrow> dict_get (fst (apply_update d u)) ''_id'' = dict_get d ''_id''"
proof (induction u arbitrary: d)
  case Nil
  then show ?case by simp
next
  case (Cons opf u)
  show ?case
  proof (cases "snd opf")
    case (VDict fields)
    obtain d' r where a: "apply_fields (fst opf) d fields = (d', r)"
      by (cases "apply_fields (fst opf) d fields")
    from Cons.prems VDict have "''_id'' \<notin> fst ` set fields" and "\<not> names_id u"
      by (auto simp: names_id_def)
    then have "dict_get d' ''_id'' = dict_get d ''_id''" and "dict_get (fst (apply_update d' u)) ''_id'' = dict_get d' ''_id''"
      using apply_fields_keeps_id [of fields "fst opf" d] a Cons.IH by simp_all
    with VDict a show ?thesis by (cases r) auto
  qed simp_all
qed

lemma id_invariant_kd_set:
  "id_invariant c \<Longrightarrow> hashable k \<Longrightarrow> dict_get d ''_id'' = k \<Longrightarrow> id_invariant (kd_set c k d)"
  by (induction c) (auto simp: id_invariant_def py_eq_refl_hashable intro: py_eq_sym_hashable)

lemma id_invariant_insert_one:
  "id_invariant c \<Longrightarrow> insert_one c d = Inr c' \<Longrightarrow> id_invariant c'"
  by (auto simp: insert_one_def Let_def id_invariant_kd_set split: if_splits)

lemma id_invariant_list_update:
  "id_invariant c \<Longrightarrow> dict_get d' ''_id'' = dict_get (snd (c ! i)) ''_id''
     \<Longrightarrow> id_invariant (c[i := (fst (c ! i), d')])"
proof (induction c arbitrary: i)
  case Nil
  then show ?case by simp
next
  case (Cons kd c)
  then show ?case by (cases i) (auto simp: id_invariant_def)
qed

lemma id_invariant_update_one:
  assumes "id_invariant c" and "\<not> names_id u"
  shows "id_invariant (fst (update_one c f u))"
proof (cases "select_doc c f")
  case (Inl e)
  with assms show ?thesis by (simp add: update_one_def)
next
  case (Inr r)
  show ?thesis
  proof (cases r)
    case None
    with Inr assms show ?thesis by (simp add: update_one_def)
  next
    case (Some i)
    obtain d' r' where a: "apply_update (snd (c ! i)) u = (d', r')"
      by (cases "apply_update (snd (c ! i)) u")
    then have "dict_get d' ''_id'' = dict_get (snd (c ! i)) ''_id''"
      using apply_update_keeps_id [OF assms(2), of "snd (c ! i)"] by simp
    then have "id_invariant (c[i := (fst (c ! i), d')])"
      using assms(1) by (rule id_invariant_list_update[rotated])
    with Inr Some a show ?thesis by (cases r') (simp_all add: update_one_def)
  qed
qed

lemma id_invariant_run_calls:
  "id_invariant c \<Longrightarrow> updates_avoid_id calls \<Longrightarrow> id_invariant (run_calls calls c)"
proof (induction calls c rule: run_calls.induct)
  case (1 c)
  then show ?case by simp
next
  case (2 d rest c)
  then show ?case
    by (cases "insert_one c d") (auto intro: id_invariant_insert_one)
next
  case (3 f u rest c)
  then show ?case by (auto intro: id_invariant_update_one)
qed

text \<open>Calls whose updates do not name the field \<^verbatim>\<open>_id\<close> keep every document under
  its own \<^verbatim>\<open>_id\<close>.\<close>

lemma id_invariant_reachable:
  "updates_avoid_id calls \<Longrightarrow> id_invariant (run_calls calls [])"
  by (rule id_invariant_run_calls) (simp_all add: id_invariant_def)

text \<open>
  Claim C2. ``In every collection reached by \<^verbatim>\<open>insert_one\<close> and \<^verbatim>\<open>update_one\<close> calls,
  every stored document's own \<^verbatim>\<open>_id\<close> equals the key it is stored under; no
  update operator can change a stored document's \<^verbatim>\<open>_id\<close>.'' The code does
  otherwise: after \<^verbatim>\<open>insert_one({_id: 1})\<close> the call
  \<^verbatim>\<open>update_one({_id: 1}, {$set: {_id: 2}})\<close> leaves a document with \<^verbatim>\<open>_id\<close> 2 under
  the key 1. In that collection \<^verbatim>\<open>find_one({_id: 2})\<close>, which looks the key up,
  finds nothing, while \<^verbatim>\<open>find({_id: 2})\<close>, which scans, returns the document.
\<close>

theorem set_id_breaks_invariant:
  "run_calls
     [InsertOne [(''_id'', VInt 1)],
      UpdateOne [(''_id'', VInt 1)] [(''$set'', VDict [(''_id'', VInt 2)])]] []
     = [(VInt 1, [(''_id'', VInt 2)])]
   \<and> \<not> id_invariant [(VInt 1, [(''_id'', VInt 2)])]
   \<and> find_one [(VInt 1, [(''_id'', VInt 2)])] [(''_id'', VInt 2)] = Inr None
   \<and> find_docs [(VInt 1, [(''_id'', VInt 2)])] [(''_id'', VInt 2)] = Inr [[(''_id'', VInt 2)]]"
  by (simp add: insert_one_def update_one_def select_doc_def docs_get_def find_one_def
      find_docs_def resolve_def bind_err_def dict_get_def apply_field_def id_invariant_def Let_def)

section \<open>Aggregation stages\<close>

text \<open>
  Claim C3. ``Sorting never fails: a document without the sort key sorts with a
  default fitting the type of the key.'' The default is the empty string
  whatever the other documents hold, so sorting \<^verbatim>\<open>[{_id: 1, n: 5}, {_id: 2}]\<close> by
  \<^verbatim>\<open>n\<close> compares \<^verbatim>\<open>""\<close> with \<^verbatim>\<open>5\<close> and raises \<^verbatim>\<open>TypeError\<close>.
\<close>

theorem sort_absent_numeric_raises:
  "aggregate [(VInt 1, [(''_id'', VInt 1), (''n'', VInt 5)]), (VInt 2, [(''_id'', VInt 2)])]
     [[(''$sort'', VDict [(''n'', VInt 1)])]] = Inl TypeError"
  by (simp add: aggregate_def run_stage_def sort_stage_def py_sort_def sort_key_of_def bind_err_def)

text \<open>
  Claim C5, as amended. A stage that has none of the keys \<^verbatim>\<open>$unwind\<close>, \<^verbatim>\<open>$group\<close>,
  \<^verbatim>\<open>$sort\<close> is skipped without an error: it hands the documents on unchanged,
  and a pipeline gives the same result with or without it.
\<close>

theorem unknown_stage_skipped:
  assumes "''$unwind'' \<notin> fst ` set stage" and "''$group'' \<notin> fst ` set stage"
    and "''$sort'' \<notin> fst ` set stage"
  shows "run_stage stage docs = Inr docs
       \<and> run_pipeline (pre @ stage # post) docs = run_pipeline (pre @ post) docs"
proof -
  have st: "run_stage stage ds = Inr ds" for ds
    using assms by (simp add: run_stage_def map_of_eq_None_iff[THEN iffD2])
  have "run_pipeline (pre @ stage # post) ds = run_pipeline (pre @ post) ds" for ds
    by (induction pre arbitrary: ds) (auto simp: bind_err_def st split: sum.splits)
  with st show ?thesis by simp
qed

theorem unknown_stage_skipped_witness:
  "aggregate [(VInt 1, [(''_id'', VInt 1)])] [[(''$match'', VDict [])]] = Inr [[(''_id'', VInt 1)]]"
  using unknown_stage_skipped [of "[(''$match'', VDict [])]" "[[(''_id'', VInt 1)]]" "[]" "[]"]
  by (simp add: aggregate_def bind_err_def)

text \<open>Claim C5 as stated fails: a \<^verbatim>\<open>$match\<close> stage raises nothing and returns the
  documents it was given, whatever it asks for.\<close>

theorem unknown_stage_no_error:
  "aggregate [(VInt 1, [(''_id'', VInt 1), (''a'', VInt 1)]), (VInt 2, [(''_id'', VInt 2), (''a'', VInt 2)])]
     [[(''$match'', VDict [(''a'', VInt 1)])]]
   = Inr [[(''_id'', VInt 1), (''a'', VInt 1)], [(''_id'', VInt 2), (''a'', VInt 2)]]"
  by (simp add: aggregate_def bind_err_def run_stage_def)











section \<open>Seeding\<close>

lemma kd_set_not_Nil: "kd_set c k v \<noteq> []"
  by (cases c) auto

lemma seed_activities_keeps_docs: "c \<noteq> [] \<Longrightarrow> fst (seed_activities xs c) \<noteq> []"
  by (induction xs arbitrary: c)
     (auto simp: insert_one_def Let_def kd_set_not_Nil split: sum.splits)

lemma seed_teachers_keeps_docs: "c \<noteq> [] \<Longrightarrow> fst (seed_teachers xs c) \<noteq> []"
  by (induction xs arbitrary: c)
     (auto simp: insert_one_def Let_def kd_set_not_Nil split: sum.splits option.splits)

lemma seed_activities_not_Nil:
  "seed_activities xs c = (c', None) \<Longrightarrow> xs \<noteq> [] \<Longrightarrow> c' \<noteq> []"
proof (cases xs)
  case Nil
  assume "xs \<noteq> []"
  with Nil show ?thesis by simp
next
  case (Cons nd rest)
  assume a: "seed_activities xs c = (c', None)"
  show ?thesis
  proof (cases "insert_one c (dict_merge [(''_id'', VStr (fst nd))] (snd nd))")
    case (Inl e)
    with a Cons show ?thesis by simp
  next
    case (Inr c1)
    then have "c1 \<noteq> []"
      by (auto simp: insert_one_def Let_def kd_set_not_Nil split: if_splits)
    then have "fst (seed_activities rest c1) \<noteq> []" by (rule seed_activities_keeps_docs)
    with a Cons Inr show ?thesis by simp
  qed
qed

lemma seed_teachers_not_Nil:
  "seed_teachers xs c = (c', None) \<Longrightarrow> xs \<noteq> [] \<Longrightarrow> c' \<noteq> []"
proof (cases xs)
  case Nil
  assume "xs \<noteq> []"
  with Nil show ?thesis by simp
next
  case (Cons teacher rest)
  assume a: "seed_teachers xs c = (c', None)"
  show ?thesis
  proof (cases "map_of teacher ''username''")
    case None
    with a Cons show ?thesis by simp
  next
    case (Some u)
    show ?thesis
    proof (cases "insert_one c (dict_merge [(''_id'', u)] teacher)")
      case (Inl e)
      with a Cons Some show ?thesis by simp
    next
      case (Inr c1)
      then have "c1 \<noteq> []"
        by (auto simp: insert_one_def Let_def kd_set_not_Nil split: if_splits)
      then have "fst (seed_teachers rest c1) \<noteq> []" by (rule seed_teachers_keeps_docs)
      with a Cons Some Inr show ?thesis by simp
    qed
  qed
qed

lemma seed_activities_ok: "snd (seed_activities initial_activities []) = None"
  by (simp add: initial_activities_def insert_one_def Let_def dict_get_def)

lemma seed_teachers_ok: "snd (seed_teachers (initial_teachers hp) []) = None"
  by (simp add: initial_teachers_def insert_one_def Let_def dict_get_def)

text \<open>Seeding the empty store stores the twelve activities and the three
  teachers of the source.\<close>

lemma init_database_counts:
  "count_documents (activities_collection (fst (init_database hp empty_store))) [] = Inr 12
   \<and> count_documents (teachers_collection (fst (init_database hp empty_store))) [] = Inr 3"
  by (simp add: init_database_def empty_store_def count_documents_def initial_activities_def
      initial_teachers_def insert_one_def Let_def dict_get_def)

lemma init_database_guard:
  "activities_collection s \<noteq> [] \<Longrightarrow>
     activities_collection (fst (init_database hp s)) = activities_collection s"
  "teachers_collection s \<noteq> [] \<Longrightarrow>
     teachers_collection (fst (init_database hp s)) = teachers_collection s"
  by (auto simp: init_database_def count_documents_def split: prod.splits option.splits)

text \<open>
  Claim C8. From any store, the empty one included, initialising raises nothing
  and initialising the resulting store again gives the same store: both
  collections have the count and the content they had after the first
  initialisation. (A collection is seeded only when it holds no document, see
  \<open>init_database_guard\<close>.)
\<close>

theorem init_database_idempotent:
  "snd (init_database hp s) = None
   \<and> init_database hp (fst (init_database hp s)) = init_database hp s
   \<and> init_database hp (fst (init_database hp empty_store)) = init_database hp empty_store"
proof -
  obtain a where a: "seed_activities initial_activities [] = (a, None)"
    using seed_activities_ok by (cases "seed_activities initial_activities []") auto
  obtain t where t: "seed_teachers (initial_teachers hp) [] = (t, None)"
    using seed_teachers_ok [of hp] by (cases "seed_teachers (initial_teachers hp) []") auto
  have "a \<noteq> []"
    using seed_activities_not_Nil [OF a] by (simp add: initial_activities_def)
  moreover have "t \<noteq> []"
    using seed_teachers_not_Nil [OF t] by (simp add: initial_teachers_def)
  ultimately have "snd (init_database hp s') = None
      \<and> init_database hp (fst (init_database hp s')) = init_database hp s'" for s'
    by (cases "activities_collection s' = []"; cases "teachers_collection s' = []")
       (simp_all add: init_database_def count_documents_def a t)
  then show ?thesis by blast
qed

section \<open>The \<^verbatim>\<open>$sort\<close> stage\<close>

subsection \<open>The encoding agrees with Python's order\<close>

lemma enc_str_inj: "enc_str s @ r1 = enc_str t @ r2 \<Longrightarrow> s = t \<and> r1 = r2"
proof (induction s arbitrary: t)
  case Nil
  then show ?case by (cases t) auto
next
  case (Cons c cs)
  then show ?case by (cases t) auto
qed

lemma str_lt_enc: "str_lt s t = (enc_str s < enc_str t)"
  by (induction s t rule: str_lt.induct) auto

lemma enc_head: "\<exists>t ts. enc a = t # ts \<and> fst t \<noteq> 0"
  by (cases a) auto

lemma enc_prefix_free:
  "enc a @ r1 = enc b @ r2 \<Longrightarrow> enc a = enc b \<and> r1 = r2"
  "enc_list xs @ r1 = enc_list ys @ r2 \<Longrightarrow> enc_list xs = enc_list ys \<and> r1 = r2"
proof (induction a and xs arbitrary: b r1 r2 and ys r1 r2 rule: enc_enc_list.induct)
  case 1
  then show ?case by (cases b) simp_all
next
  case (2 b')
  then show ?case by (cases b) (simp_all split: if_splits)
next
  case (3 i)
  then show ?case by (cases b) (simp_all split: if_splits)
next
  case (4 s)
  from "4.prems" show ?case
  proof (cases b)
    case (VStr t)
    with "4.prems" have "enc_str s @ r1 = enc_str t @ r2" by simp
    from enc_str_inj [OF this] VStr show ?thesis by simp
  qed simp_all
next
  case (5 xs)
  from "5.prems" show ?case
  proof (cases b)
    case (VList ys)
    with "5.prems" have "enc_list xs @ r1 = enc_list ys @ r2" by simp
    from "5.IH" [OF this] VList show ?thesis by simp
  qed simp_all
next
  case (6 d)
  then show ?case by (cases b) simp_all
next
  case 7
  show ?case
  proof (cases ys)
    case Nil
    with 7 show ?thesis by simp
  next
    case (Cons y ys')
    obtain t ts where "enc y = t # ts" "fst t \<noteq> 0" using enc_head by blast
    with 7 Cons show ?thesis by auto
  qed
next
  case (8 x xs)
  show ?case
  proof (cases ys)
    case Nil
    obtain t ts where "enc x = t # ts" "fst t \<noteq> 0" using enc_head by blast
    with "8.prems" Nil show ?thesis by auto
  next
    case (Cons y ys')
    with "8.prems" have e: "enc x @ (enc_list xs @ r1) = enc y @ (enc_list ys' @ r2)" by simp
    from "8.IH"(1) [OF e] have a: "enc x = enc y" and b: "enc_list xs @ r1 = enc_list ys' @ r2"
      by simp_all
    from "8.IH"(2) [OF b] a Cons show ?thesis by simp
  qed
qed

lemma py_eq_enc:
  "py_eq a b \<Longrightarrow> enc a = enc b"
  "py_eq_list xs ys \<Longrightarrow> enc_list xs = enc_list ys"
  "py_eq_items its bs \<Longrightarrow> True"
proof (induction a b and xs ys and its bs rule: py_eq_py_eq_list_py_eq_items.induct)
  case (2 a b)
  then show ?case by (cases b) (auto split: if_splits)
next
  case (3 a b)
  then show ?case by (cases b) (auto split: if_splits)
next
  case (5 a b)
  then show ?case by (cases b) auto
next
  case (6 a b)
  then show ?case by (cases b) auto
next
  case (8 x xs bs)
  then show ?case by (cases bs) auto
qed auto


lemma less_append_apart:
  fixes xs ys :: "('a::linorder) list"
  assumes "\<And>t. ys \<noteq> xs @ t" and "\<And>t. xs \<noteq> ys @ t"
  shows "(xs @ a < ys @ b) = (xs < ys)"
  using assms
proof (induction xs arbitrary: ys)
  case Nil
  from Nil(1) [of ys] show ?case by simp
next
  case (Cons x xs)
  show ?case
  proof (cases ys)
    case Nil
    with Cons.prems(2) [of "x # xs"] show ?thesis by simp
  next
    case (Cons y ys')
    show ?thesis
    proof (cases "x = y")
      case True
      have "(xs @ a < ys' @ b) = (xs < ys')"
      proof (rule Cons.IH)
        fix t
        from Cons.prems(1) [of t] Cons True show "ys' \<noteq> xs @ t" by simp
        from Cons.prems(2) [of t] Cons True show "xs \<noteq> ys' @ t" by simp
      qed
      with Cons True show ?thesis by simp
    next
      case False
      with Cons show ?thesis by simp
    qed
  qed
qed

lemma enc_apart:
  assumes "enc x \<noteq> enc y"
  shows "(enc x @ a < enc y @ b) = (enc x < enc y)" and "enc x @ a \<noteq> enc y @ b"
proof -
  have 1: "enc y \<noteq> enc x @ t" for t
    using enc_prefix_free(1) [of x t y "[]"] assms by auto
  have 2: "enc x \<noteq> enc y @ t" for t
    using enc_prefix_free(1) [of y t x "[]"] assms by auto
  from 1 2 show "(enc x @ a < enc y @ b) = (enc x < enc y)" by (rule less_append_apart)
  from enc_prefix_free(1) [of x a y b] assms show "enc x @ a \<noteq> enc y @ b" by auto
qed

lemma less_same_append: "(xs @ a < xs @ b) = (a < (b :: ('a::linorder) list))"
  by (induction xs) simp_all

lemma py_lt_enc_both:
  "py_lt a b = Inr r \<Longrightarrow> r = (enc a < enc b) \<and> (enc a = enc b \<longrightarrow> py_eq a b)"
  "py_lt_list xs ys = Inr r \<Longrightarrow>
     r = (enc_list xs < enc_list ys) \<and> (enc_list xs = enc_list ys \<longrightarrow> py_eq_list xs ys)"
proof (induction a b and xs ys arbitrary: r and r rule: py_lt_py_lt_list.induct)
  case (1 b)
  then show ?case by simp
next
  case (2 a b)
  then show ?case by (cases b) (auto split: if_splits)
next
  case (3 a b)
  then show ?case by (cases b) (auto split: if_splits)
next
  case (4 a b)
  from "4.prems" show ?case
  proof (cases b)
    case (VStr s)
    have "enc_str a = enc_str s \<Longrightarrow> a = s"
      using enc_str_inj [of a "[]" s "[]"] by simp
    with "4.prems" VStr show ?thesis by (auto simp: str_lt_enc)
  qed simp_all
next
  case (5 a b)
  from "5.prems" show ?case
  proof (cases b)
    case (VList bs)
    with "5.prems" have "py_lt_list a bs = Inr r" by simp
    from "5.IH" [OF VList this] VList show ?thesis by simp
  qed simp_all
next
  case (6 a b)
  then show ?case by simp
next
  case (7 bs)
  show ?case
  proof (cases bs)
    case Nil
    with 7 show ?thesis by auto
  next
    case (Cons y ys)
    obtain t ts where "enc y = t # ts" "fst t \<noteq> 0" using enc_head by blast
    with 7 Cons show ?thesis by (cases t) auto
  qed
next
  case (8 x xs bs)
  show ?case
  proof (cases bs)
    case Nil
    obtain t ts where "enc x = t # ts" "fst t \<noteq> 0" using enc_head by blast
    with "8.prems" Nil show ?thesis by (cases t) auto
  next
    case (Cons y ys)
    show ?thesis
    proof (cases "py_eq x y")
      case True
      with "8.prems" Cons have "py_lt_list xs ys = Inr r" by simp
      from "8.IH"(1) [OF Cons True this] py_eq_enc(1) [OF True] Cons True
      show ?thesis by (simp add: less_same_append)
    next
      case False
      with "8.prems" Cons have l: "py_lt x y = Inr r" by simp
      from "8.IH"(2) [OF Cons False l] False have r: "r = (enc x < enc y)" and ne: "enc x \<noteq> enc y"
        by auto
      from enc_apart [OF ne] r Cons False show ?thesis by simp
    qed
  qed
qed

lemma py_lt_enc: "py_lt a b = Inr r \<Longrightarrow> r = (enc a < enc b)"
  by (simp add: py_lt_enc_both(1))

lemma py_lt_enc_eq: "py_lt a b = Inr r \<Longrightarrow> (enc a = enc b) = py_eq a b"
  using py_lt_enc_both(1) py_eq_enc(1) by blast

subsection \<open>The sort of the code is the stable sort of the library\<close>

lemma py_insort_insort: "py_insort x ys = Inr r \<Longrightarrow> r = insort enc_cmp x ys"
proof (induction ys arbitrary: r)
  case Nil
  then show ?case by simp
next
  case (Cons y ys)
  from Cons.prems obtain b where b: "py_lt (fst y) (fst x) = Inr b"
    by (cases "py_lt (fst y) (fst x)") (auto simp: bind_err_def)
  then have bb: "b = (enc (fst y) < enc (fst x))" by (rule py_lt_enc)
  show ?case
  proof (cases b)
    case True
    with Cons.prems b obtain r' where r': "py_insort x ys = Inr r'" and r: "r = y # r'"
      by (cases "py_insort x ys") (auto simp: bind_err_def)
    from Cons.IH [OF r'] have "r' = insort enc_cmp x ys" .
    with r True bb show ?thesis by simp
  next
    case False
    with Cons.prems b have "r = x # y # ys" by (simp add: bind_err_def)
    with False bb show ?thesis by (simp add: not_less)
  qed
qed

lemma py_sort_asc_sort: "py_sort_asc xs = Inr r \<Longrightarrow> r = sort enc_cmp xs"
proof (induction xs arbitrary: r)
  case Nil
  then show ?case by simp
next
  case (Cons x xs)
  from Cons.prems obtain r' where r': "py_sort_asc xs = Inr r'" and r: "py_insort x r' = Inr r"
    by (cases "py_sort_asc xs") (auto simp: bind_err_def)
  from Cons.IH [OF r'] py_insort_insort [OF r] show ?case by simp
qed

lemma insort_map:
  assumes "\<And>x y. compare c (m x) (m y) = compare c' x y"
  shows "insort c (m x) (map m ys) = map m (insort c' x ys)"
  by (induction ys) (simp_all add: assms)

lemma sort_map:
  assumes "\<And>x y. compare c (m x) (m y) = compare c' x y"
  shows "sort c (map m xs) = map m (sort c' xs)"
  by (induction xs) (simp_all add: insort_map [where c' = c', OF assms])

lemma sorted_Cons_all: "sorted c (x # xs) \<Longrightarrow> \<forall>y\<in>set xs. compare c x y \<noteq> Greater"
  using sorted_append_iff [of c "[x]" xs] by simp

lemma sorted_reversed_rev: "sorted c xs \<Longrightarrow> sorted (reversed c) (rev xs)"
proof (induction xs)
  case Nil
  then show ?case by simp
next
  case (Cons x xs)
  then have "sorted (reversed c) (rev xs)"
    by (auto dest: sorted_Cons_imp_sorted)
  moreover from Cons.prems have "\<forall>y\<in>set xs. compare c x y \<noteq> Greater"
    by (rule sorted_Cons_all)
  ultimately show ?case
    by (simp add: sorted_append_iff)
qed

lemma rev_sort_rev: "rev (sort c (rev xs)) = sort (reversed c) xs"
proof (rule sym, rule sort_eqI)
  show "mset xs = mset (rev (sort c (rev xs)))" by simp
  show "sorted (reversed c) (rev (sort c (rev xs)))"
    by (rule sorted_reversed_rev) simp
next
  fix y
  have eq: "stable_segment (reversed c) y zs = stable_segment c y zs" for zs
    by (rule filter_cong) (auto simp: compare.sym)
  have "stable_segment (reversed c) y (rev (sort c (rev xs)))
      = rev (stable_segment c y (sort c (rev xs)))"
    by (simp only: eq rev_filter)
  also have "\<dots> = rev (stable_segment c y (rev xs))"
    by (simp only: stable_sort)
  also have "\<dots> = stable_segment (reversed c) y xs"
    by (simp only: eq rev_filter rev_rev_ident)
  finally show "stable_segment (reversed c) y xs
      = stable_segment (reversed c) y (rev (sort c (rev xs)))" by simp
qed

lemma sort_flat: "sort flat xs = xs"
proof (induction xs)
  case Nil
  then show ?case by simp
next
  case (Cons x xs)
  have "compare flat a b = Equiv" for a b :: 'a by transfer simp
  then have "insort flat x xs = x # xs" by (cases xs) simp_all
  with Cons show ?case by simp
qed

lemma sort_sort_lex:
  "sort c1 (sort c2 xs) = sort (key (\<lambda>d. (d, d)) (prod_lex c1 c2)) xs"
proof -
  let ?m = "\<lambda>d. (d, d)"
  have "(sort (key fst c1) \<circ> sort (key snd c2)) (map ?m xs) = sort (prod_lex c1 c2) (map ?m xs)"
    by (simp only: sort_comp_fst_snd_eq_sort_prod_lex)
  moreover have "sort (key snd c2) (map ?m xs) = map ?m (sort c2 xs)"
    by (rule sort_map) simp
  moreover have "sort (key fst c1) (map ?m ys) = map ?m (sort c1 ys)" for ys
    by (rule sort_map) simp
  moreover have "sort (prod_lex c1 c2) (map ?m xs) = map ?m (sort (key ?m (prod_lex c1 c2)) xs)"
    by (rule sort_map) simp
  ultimately have "map ?m (sort c1 (sort c2 xs)) = map ?m (sort (key ?m (prod_lex c1 c2)) xs)"
    by simp
  then have "map fst (map ?m (sort c1 (sort c2 xs)))
      = map fst (map ?m (sort (key ?m (prod_lex c1 c2)) xs))" by simp
  then show ?thesis by (simp add: comp_def)
qed

lemma py_sort_sort:
  assumes "py_sort k reverse docs = Inr out"
  shows "out = sort (if reverse then reversed (key (\<lambda>d. enc (sort_key_of k d)) default)
                     else key (\<lambda>d. enc (sort_key_of k d)) default) docs"
proof -
  let ?m = "\<lambda>d. (sort_key_of k d, d)"
  let ?c = "key (\<lambda>d. enc (sort_key_of k d)) default :: doc comparator"
  have m: "sort enc_cmp (map ?m ds) = map ?m (sort ?c ds)" for ds
    by (rule sort_map) simp
  show ?thesis
  proof (cases reverse)
    case False
    with assms obtain r where r: "py_sort_asc (map ?m docs) = Inr r" and o: "out = map snd r"
      by (cases "py_sort_asc (map ?m docs)") (auto simp: py_sort_def bind_err_def)
    from py_sort_asc_sort [OF r] have "r = sort enc_cmp (map ?m docs)" .
    with o m False show ?thesis by (simp add: comp_def)
  next
    case True
    with assms obtain r where r: "py_sort_asc (rev (map ?m docs)) = Inr r"
      and o: "out = rev (map snd r)"
      by (cases "py_sort_asc (rev (map ?m docs))") (auto simp: py_sort_def bind_err_def)
    from py_sort_asc_sort [OF r] have "r = sort enc_cmp (map ?m (rev docs))"
      by (simp add: rev_map)
    with o m have "out = rev (sort ?c (rev docs))" by (simp add: comp_def)
    with True show ?thesis by (simp add: rev_sort_rev)
  qed
qed

lemma sort_loop_append:
  "sort_loop (xs @ ys) docs = bind_err (sort_loop xs docs) (sort_loop ys)"
  by (induction xs arbitrary: docs) (auto simp: bind_err_def split: sum.splits)

lemma sort_loop_single:
  "sort_loop [kd] docs = py_sort (fst kd) (py_eq (snd kd) (VInt (- 1))) docs"
  by (cases "py_sort (fst kd) (py_eq (snd kd) (VInt (- 1))) docs") (simp_all add: bind_err_def)

lemma sort_loop_sort:
  "sort_loop (rev spec) docs = Inr out \<Longrightarrow> out = sort (spec_cmp spec) docs"
proof (induction spec arbitrary: out)
  case Nil
  then show ?case by (simp add: sort_flat)
next
  case (Cons kd rest)
  from Cons.prems obtain mid where mid: "sort_loop (rev rest) docs = Inr mid"
    and o: "py_sort (fst kd) (py_eq (snd kd) (VInt (- 1))) mid = Inr out"
    by (cases "sort_loop (rev rest) docs")
       (auto simp: sort_loop_append sort_loop_single bind_err_def simp del: sort_loop.simps)
  from Cons.IH [OF mid] have m: "mid = sort (spec_cmp rest) docs" .
  from py_sort_sort [OF o] have "out = sort (key_cmp kd) mid"
    by (simp add: key_cmp_def)
  with m show ?case by (simp add: sort_sort_lex)
qed

lemma sorted_weaken:
  assumes "\<And>x y. compare c x y \<noteq> Greater \<Longrightarrow> compare c' x y \<noteq> Greater"
  shows "sorted c xs \<Longrightarrow> sorted c' xs"
  by (induction xs rule: induct_list012) (auto dest: assms)

lemma sorted_spec_cmp_first: "sorted (spec_cmp (kd # rest)) xs \<Longrightarrow> sorted (key_cmp kd) xs"
  by (erule sorted_weaken [rotated]) (simp add: compare_prod_lex_apply split: comp.splits)

lemma py_insort_defined:
  "\<forall>y\<in>set ys. \<exists>b. py_lt (fst y) (fst x) = Inr b \<Longrightarrow> \<exists>r. py_insort x ys = Inr r"
proof (induction ys)
  case Nil
  then show ?case by simp
next
  case (Cons y ys)
  then obtain b r where "py_lt (fst y) (fst x) = Inr b" and "py_insort x ys = Inr r"
    by auto
  then show ?case by (simp add: bind_err_def)
qed

lemma comparable_iff: "comparable a b \<longleftrightarrow> (\<exists>r. py_lt a b = Inr r)"
  by (cases "py_lt a b") (simp_all add: comparable_def)

lemma py_sort_asc_defined:
  assumes "\<forall>a\<in>set xs. \<forall>b\<in>set xs. comparable (fst a) (fst b)"
  shows "\<exists>r. py_sort_asc xs = Inr r"
  using assms
proof (induction xs)
  case Nil
  then show ?case by simp
next
  case (Cons x xs)
  then obtain r where r: "py_sort_asc xs = Inr r" by auto
  from py_sort_asc_sort [OF r] have "set r = set xs" by simp
  with Cons.prems have "\<forall>y\<in>set r. \<exists>b. py_lt (fst y) (fst x) = Inr b"
    by (simp add: comparable_iff)
  then obtain r' where "py_insort x r = Inr r'"
    using py_insort_defined by blast
  with r show ?case by (simp add: bind_err_def)
qed

lemma py_sort_defined:
  assumes "\<forall>a\<in>set docs. \<forall>b\<in>set docs. comparable (sort_key_of k a) (sort_key_of k b)"
  shows "\<exists>out. py_sort k reverse docs = Inr out"
proof -
  let ?m = "\<lambda>d. (sort_key_of k d, d)"
  from assms have "\<exists>r. py_sort_asc (map ?m docs) = Inr r"
    by (intro py_sort_asc_defined) auto
  moreover from assms have "\<exists>r. py_sort_asc (rev (map ?m docs)) = Inr r"
    by (intro py_sort_asc_defined) auto
  ultimately show ?thesis
    by (auto simp: py_sort_def bind_err_def Let_def)
qed

lemma sort_loop_defined:
  assumes "\<forall>kd\<in>set spec. \<forall>a\<in>set docs. \<forall>b\<in>set docs.
             comparable (sort_key_of (fst kd) a) (sort_key_of (fst kd) b)"
  shows "\<exists>out. sort_loop (rev spec) docs = Inr out"
  using assms
proof (induction spec)
  case Nil
  then show ?case by simp
next
  case (Cons kd rest)
  then obtain mid where mid: "sort_loop (rev rest) docs = Inr mid" by auto
  from sort_loop_sort [OF mid] have "set mid = set docs" by simp
  with Cons.prems
  have "\<forall>a\<in>set mid. \<forall>b\<in>set mid. comparable (sort_key_of (fst kd) a) (sort_key_of (fst kd) b)"
    by simp
  then have "\<exists>out. py_sort (fst kd) (py_eq (snd kd) (VInt (- 1))) mid = Inr out"
    by (rule py_sort_defined)
  then obtain out where "py_sort (fst kd) (py_eq (snd kd) (VInt (- 1))) mid = Inr out" ..
  with mid show ?case
    by (simp add: sort_loop_append sort_loop_single bind_err_def del: sort_loop.simps)
qed

lemma py_sort_short: "length docs \<le> 1 \<Longrightarrow> py_sort k reverse docs = Inr docs"
proof (cases docs)
  case Nil
  then show ?thesis by (simp add: py_sort_def bind_err_def)
next
  case (Cons d ds)
  assume "length docs \<le> 1"
  with Cons have "ds = []" by simp
  with Cons show ?thesis by (simp add: py_sort_def bind_err_def Let_def)
qed

lemma sort_loop_short: "length docs \<le> 1 \<Longrightarrow> sort_loop items docs = Inr docs"
  by (induction items) (simp_all add: py_sort_short bind_err_def)

lemma sort_stage_returns:
  assumes "comparable_keys spec docs"
  shows "sort_stage (VDict spec) docs = Inr (sort (spec_cmp spec) docs)"
proof -
  from assms have "\<exists>out. sort_loop (rev spec) docs = Inr out"
    unfolding comparable_keys_def
  proof
    assume "length docs \<le> 1"
    then show ?thesis by (simp add: sort_loop_short)
  next
    assume "\<forall>kd\<in>set spec. \<forall>a\<in>set docs. \<forall>b\<in>set docs.
             comparable (sort_key_of (fst kd) a) (sort_key_of (fst kd) b)"
    then show ?thesis by (rule sort_loop_defined)
  qed
  then obtain out where out: "sort_loop (rev spec) docs = Inr out" ..
  from sort_loop_sort [OF out] out show ?thesis by (simp add: sort_stage_def)
qed

lemma sort_stage_result:
  "sort_stage (VDict spec) docs = Inr out \<Longrightarrow> out = sort (spec_cmp spec) docs"
  by (simp add: sort_stage_def sort_loop_sort)

lemma compare_spec_cmp_Cons:
  "compare (spec_cmp (kd # rest)) x y =
     (case compare (key_cmp kd) x y of
        Less \<Rightarrow> Less
      | Equiv \<Rightarrow> compare (spec_cmp rest) x y
      | Greater \<Rightarrow> Greater)"
  by (simp add: compare_prod_lex_apply split: comp.splits)

lemma compare_key_cmp_Less:
  assumes "comparable (sort_key_of (fst kd) x) (sort_key_of (fst kd) y)"
    and "comparable (sort_key_of (fst kd) y) (sort_key_of (fst kd) x)"
  shows "compare (key_cmp kd) x y = Less \<longleftrightarrow>
     (if py_eq (snd kd) (VInt (- 1))
      then py_lt (sort_key_of (fst kd) y) (sort_key_of (fst kd) x) = Inr True
      else py_lt (sort_key_of (fst kd) x) (sort_key_of (fst kd) y) = Inr True)"
  using assms
  by (auto simp: key_cmp_def comparable_iff dest: py_lt_enc)

lemma compare_key_cmp_Equiv:
  assumes "comparable (sort_key_of (fst kd) x) (sort_key_of (fst kd) y)"
  shows "compare (key_cmp kd) x y = Equiv \<longleftrightarrow>
     py_eq (sort_key_of (fst kd) x) (sort_key_of (fst kd) y)"
  using assms
  by (auto simp: key_cmp_def comparable_iff dest: py_lt_enc_eq)

text \<open>
  Claim C6, as amended. Whenever the \<^verbatim>\<open>$sort\<close> stage returns, what it returns is
  the stable sort of the documents by the lexicographic order of the declared
  keys: a permutation of the input, sorted in that order, with documents that
  agree on every key in their input order, and sorted by the first-declared
  key. The stage does return when the documents have comparable keys: there is
  at most one document, or at every sort key any two of their values (an absent
  one read as \<^verbatim>\<open>""\<close>) compare with \<^verbatim>\<open><\<close>. On such documents the order of each key
  is the one of \<^verbatim>\<open><\<close> (reversed for the direction \<^verbatim>\<open>-1\<close>), and two documents are
  equivalent at a key when their values are equal (\<^verbatim>\<open>==\<close>).
\<close>

theorem sort_stage_stable_multikey:
  "(\<forall>out. sort_stage (VDict spec) docs = Inr out \<longrightarrow>
       out = stable_sort_by (spec_cmp spec) docs
     \<and> mset out = mset docs
     \<and> sorted_by (spec_cmp spec) out
     \<and> (\<forall>d. stable_segment (spec_cmp spec) d out = stable_segment (spec_cmp spec) d docs)
     \<and> (\<forall>kd rest. spec = kd # rest \<longrightarrow> sorted_by (key_cmp kd) out))
   \<and> (comparable_keys spec docs \<longrightarrow>
       (\<exists>out. sort_stage (VDict spec) docs = Inr out)
     \<and> (1 < length docs \<longrightarrow> (\<forall>kd\<in>set spec. \<forall>a\<in>set docs. \<forall>b\<in>set docs.
           (compare (key_cmp kd) a b = Less \<longleftrightarrow>
              (if py_eq (snd kd) (VInt (- 1))
               then py_lt (sort_key_of (fst kd) b) (sort_key_of (fst kd) a) = Inr True
               else py_lt (sort_key_of (fst kd) a) (sort_key_of (fst kd) b) = Inr True))
         \<and> (compare (key_cmp kd) a b = Equiv \<longleftrightarrow>
              py_eq (sort_key_of (fst kd) a) (sort_key_of (fst kd) b)))))"
proof -
  let ?out = "stable_sort_by (spec_cmp spec) docs"
  have first: "sorted_by (key_cmp kd) ?out" if "spec = kd # rest" for kd rest
  proof -
    from that have "sorted_by (spec_cmp (kd # rest)) ?out" by (simp del: spec_cmp.simps)
    then show ?thesis by (rule sorted_spec_cmp_first)
  qed
  have res: "out = ?out \<and> mset out = mset docs \<and> sorted_by (spec_cmp spec) out
     \<and> (\<forall>d. stable_segment (spec_cmp spec) d out = stable_segment (spec_cmp spec) d docs)
     \<and> (\<forall>kd rest. spec = kd # rest \<longrightarrow> sorted_by (key_cmp kd) out)"
    if "sort_stage (VDict spec) docs = Inr out" for out
  proof -
    from that have "out = ?out" by (rule sort_stage_result)
    with first show ?thesis by (simp add: stable_sort)
  qed
  have ret: "\<exists>out. sort_stage (VDict spec) docs = Inr out" if "comparable_keys spec docs"
    using sort_stage_returns [OF that] by blast
  have py: "(compare (key_cmp kd) a b = Less \<longleftrightarrow>
                (if py_eq (snd kd) (VInt (- 1))
                 then py_lt (sort_key_of (fst kd) b) (sort_key_of (fst kd) a) = Inr True
                 else py_lt (sort_key_of (fst kd) a) (sort_key_of (fst kd) b) = Inr True))
           \<and> (compare (key_cmp kd) a b = Equiv \<longleftrightarrow>
                py_eq (sort_key_of (fst kd) a) (sort_key_of (fst kd) b))"
    if "comparable_keys spec docs" and "1 < length docs"
      and "kd \<in> set spec" and "a \<in> set docs" and "b \<in> set docs" for kd a b
  proof -
    from that have ab: "comparable (sort_key_of (fst kd) a) (sort_key_of (fst kd) b)"
      and ba: "comparable (sort_key_of (fst kd) b) (sort_key_of (fst kd) a)"
      by (auto simp: comparable_keys_def)
    from compare_key_cmp_Less [OF ab ba] compare_key_cmp_Equiv [OF ab] show ?thesis by blast
  qed
  from res ret py show ?thesis by blast
qed

theorem sort_stage_stable_multikey_witness:
  "sort_stage (VDict [(''a'', VInt 1), (''b'', VInt 1)])
     [[(''_id'', VInt 1), (''a'', VInt 1), (''b'', VInt 2)],
      [(''_id'', VInt 2), (''a'', VInt 1), (''b'', VInt 1)]]
   = Inr [[(''_id'', VInt 2), (''a'', VInt 1), (''b'', VInt 1)],
          [(''_id'', VInt 1), (''a'', VInt 1), (''b'', VInt 2)]]
   \<and> stable_sort_by (spec_cmp [(''a'', VInt 1), (''b'', VInt 1)])
       [[(''_id'', VInt 1), (''a'', VInt 1), (''b'', VInt 2)],
        [(''_id'', VInt 2), (''a'', VInt 1), (''b'', VInt 1)]]
     = [[(''_id'', VInt 2), (''a'', VInt 1), (''b'', VInt 1)],
        [(''_id'', VInt 1), (''a'', VInt 1), (''b'', VInt 2)]]
   \<and> comparable_keys [(''name'', VInt 1), (''n'', VInt (- 1))]
     [[(''_id'', VInt 1), (''name'', VStr ''x''), (''n'', VInt 1)],
      [(''_id'', VInt 2), (''n'', VInt 2)],
      [(''_id'', VInt 3), (''name'', VStr ''x''), (''n'', VInt 3)],
      [(''_id'', VInt 4), (''name'', VStr ''b''), (''n'', VInt 1)]]
   \<and> sort_stage (VDict [(''name'', VInt 1), (''n'', VInt (- 1))])
     [[(''_id'', VInt 1), (''name'', VStr ''x''), (''n'', VInt 1)],
      [(''_id'', VInt 2), (''n'', VInt 2)],
      [(''_id'', VInt 3), (''name'', VStr ''x''), (''n'', VInt 3)],
      [(''_id'', VInt 4), (''name'', VStr ''b''), (''n'', VInt 1)]]
   = Inr [[(''_id'', VInt 2), (''n'', VInt 2)],
          [(''_id'', VInt 4), (''name'', VStr ''b''), (''n'', VInt 1)],
          [(''_id'', VInt 3), (''name'', VStr ''x''), (''n'', VInt 3)],
          [(''_id'', VInt 1), (''name'', VStr ''x''), (''n'', VInt 1)]]
   \<and> stable_sort_by (spec_cmp [(''name'', VInt 1), (''n'', VInt (- 1))])
     [[(''_id'', VInt 1), (''name'', VStr ''x''), (''n'', VInt 1)],
      [(''_id'', VInt 2), (''n'', VInt 2)],
      [(''_id'', VInt 3), (''name'', VStr ''x''), (''n'', VInt 3)],
      [(''_id'', VInt 4), (''name'', VStr ''b''), (''n'', VInt 1)]]
   = [[(''_id'', VInt 2), (''n'', VInt 2)],
          [(''_id'', VInt 4), (''name'', VStr ''b''), (''n'', VInt 1)],
          [(''_id'', VInt 3), (''name'', VStr ''x''), (''n'', VInt 3)],
          [(''_id'', VInt 1), (''name'', VStr ''x''), (''n'', VInt 1)]]
   \<and> comparable_keys [(''days'', VInt 1)]
     [[(''_id'', VInt 1), (''days'', VList [VStr ''Tue'', VStr ''Thu''])],
      [(''_id'', VInt 2), (''days'', VList [VStr ''Mon''])],
      [(''_id'', VInt 3), (''days'', VList [VStr ''Mon'', VStr ''Fri''])]]
   \<and> sort_stage (VDict [(''days'', VInt 1)])
     [[(''_id'', VInt 1), (''days'', VList [VStr ''Tue'', VStr ''Thu''])],
      [(''_id'', VInt 2), (''days'', VList [VStr ''Mon''])],
      [(''_id'', VInt 3), (''days'', VList [VStr ''Mon'', VStr ''Fri''])]]
   = Inr [[(''_id'', VInt 2), (''days'', VList [VStr ''Mon''])],
          [(''_id'', VInt 3), (''days'', VList [VStr ''Mon'', VStr ''Fri''])],
          [(''_id'', VInt 1), (''days'', VList [VStr ''Tue'', VStr ''Thu''])]]
   \<and> stable_sort_by (spec_cmp [(''days'', VInt 1)])
     [[(''_id'', VInt 1), (''days'', VList [VStr ''Tue'', VStr ''Thu''])],
      [(''_id'', VInt 2), (''days'', VList [VStr ''Mon''])],
      [(''_id'', VInt 3), (''days'', VList [VStr ''Mon'', VStr ''Fri''])]]
   = [[(''_id'', VInt 2), (''days'', VList [VStr ''Mon''])],
          [(''_id'', VInt 3), (''days'', VList [VStr ''Mon'', VStr ''Fri''])],
          [(''_id'', VInt 1), (''days'', VList [VStr ''Tue'', VStr ''Thu''])]]"
proof -
  let ?s1 = "[(''a'', VInt 1), (''b'', VInt 1)]"
  let ?d1 = "[[(''_id'', VInt 1), (''a'', VInt 1), (''b'', VInt 2)],
      [(''_id'', VInt 2), (''a'', VInt 1), (''b'', VInt 1)]]"
  let ?s2 = "[(''name'', VInt 1), (''n'', VInt (- 1))]"
  let ?d2 = "[[(''_id'', VInt 1), (''name'', VStr ''x''), (''n'', VInt 1)],
      [(''_id'', VInt 2), (''n'', VInt 2)],
      [(''_id'', VInt 3), (''name'', VStr ''x''), (''n'', VInt 3)],
      [(''_id'', VInt 4), (''name'', VStr ''b''), (''n'', VInt 1)]]"
  let ?s3 = "[(''days'', VInt 1)]"
  let ?d3 = "[[(''_id'', VInt 1), (''days'', VList [VStr ''Tue'', VStr ''Thu''])],
      [(''_id'', VInt 2), (''days'', VList [VStr ''Mon''])],
      [(''_id'', VInt 3), (''days'', VList [VStr ''Mon'', VStr ''Fri''])]]"
  have c2: "comparable_keys ?s2 ?d2"
    by (simp add: comparable_keys_def comparable_def sort_key_of_def)
  have c3: "comparable_keys ?s3 ?d3"
    by (simp add: comparable_keys_def comparable_def sort_key_of_def)
  have e1: "sort_stage (VDict ?s1) ?d1
     = Inr [[(''_id'', VInt 2), (''a'', VInt 1), (''b'', VInt 1)],
          [(''_id'', VInt 1), (''a'', VInt 1), (''b'', VInt 2)]]"
    by (simp add: sort_stage_def py_sort_def sort_key_of_def bind_err_def)
  have e2: "sort_stage (VDict ?s2) ?d2
     = Inr [[(''_id'', VInt 2), (''n'', VInt 2)],
          [(''_id'', VInt 4), (''name'', VStr ''b''), (''n'', VInt 1)],
          [(''_id'', VInt 3), (''name'', VStr ''x''), (''n'', VInt 3)],
          [(''_id'', VInt 1), (''name'', VStr ''x''), (''n'', VInt 1)]]"
    by (simp add: sort_stage_def py_sort_def sort_key_of_def bind_err_def)
  have e3: "sort_stage (VDict ?s3) ?d3
     = Inr [[(''_id'', VInt 2), (''days'', VList [VStr ''Mon''])],
          [(''_id'', VInt 3), (''days'', VList [VStr ''Mon'', VStr ''Fri''])],
          [(''_id'', VInt 1), (''days'', VList [VStr ''Tue'', VStr ''Thu''])]]"
    by (simp add: sort_stage_def py_sort_def sort_key_of_def bind_err_def)
  from sort_stage_stable_multikey [of ?s1 ?d1] e1
    sort_stage_stable_multikey [of ?s2 ?d2] e2 c2
    sort_stage_stable_multikey [of ?s3 ?d3] e3 c3
  show ?thesis by (simp del: spec_cmp.simps)
qed

text \<open>
  Claim C6 as stated fails: not every document set has a result. With the
  values 1 and \<^verbatim>\<open>"x"\<close> at the key \<^verbatim>\<open>a\<close>, sorting by \<^verbatim>\<open>{a: 1, b: 1}\<close> compares a
  number with a string and raises \<^verbatim>\<open>TypeError\<close>.
\<close>

theorem sort_mixed_values_raises:
  "aggregate
     [(VInt 1, [(''_id'', VInt 1), (''a'', VInt 1), (''b'', VInt 2)]),
      (VInt 2, [(''_id'', VInt 2), (''a'', VStr ''x''), (''b'', VInt 1)])]
     [[(''$sort'', VDict [(''a'', VInt 1), (''b'', VInt 1)])]] = Inl TypeError"
  by (simp add: aggregate_def run_stage_def sort_stage_def py_sort_def sort_key_of_def bind_err_def)

end
